theory Spec2Isabelle
  imports Main "HOL-Library.Word"
begin

section \<open>Text: bytes, code points, decoding and line splitting\<close>

text \<open>
  The forwarding loop of \<^verbatim>\<open>main.py\<close> receives \<^verbatim>\<open>bytes\<close> objects from the
  container's log stream and turns each into a list of \<^verbatim>\<open>str\<close> lines with
  \<^verbatim>\<open>log_line.decode("utf-8").splitlines()\<close>. A Python \<^verbatim>\<open>bytes\<close> object is a
  sequence of octets; a Python \<^verbatim>\<open>str\<close> is a sequence of Unicode code points.
\<close>

type_synonym byte = "8 word"
type_synonym bytes = "byte list"
type_synonym str = "nat list"

text \<open>String literals of the source are ASCII; \<open>ascii\<close> reads them as code points.\<close>

definition ascii :: "string \<Rightarrow> str" where
  "ascii s = map of_char s"

definition encode_ascii :: "string \<Rightarrow> bytes" where
  "encode_ascii s = map of_char s"

subsection \<open>\<^verbatim>\<open>bytes.decode("utf-8")\<close>\<close>

text \<open>
  The strict UTF-8 decoder: it accepts exactly the well-formed byte sequences of the
  Unicode standard (shortest form only, no surrogates, nothing above U+10FFFF) and
  raises \<^verbatim>\<open>UnicodeDecodeError\<close> on everything else, which is \<open>None\<close> here.
\<close>

definition continuation :: "byte \<Rightarrow> bool" where
  "continuation b \<longleftrightarrow> 0x80 \<le> b \<and> b \<le> 0xBF"

text \<open>The range of the second byte depends on the lead byte.\<close>

definition second_ok :: "byte \<Rightarrow> byte \<Rightarrow> bool" where
  "second_ok b0 b1 \<longleftrightarrow>
     (if b0 = 0xE0 then 0xA0 \<le> b1 \<and> b1 \<le> 0xBF
      else if b0 = 0xED then 0x80 \<le> b1 \<and> b1 \<le> 0x9F
      else if b0 = 0xF0 then 0x90 \<le> b1 \<and> b1 \<le> 0xBF
      else if b0 = 0xF4 then 0x80 \<le> b1 \<and> b1 \<le> 0x8F
      else continuation b1)"

definition low6 :: "byte \<Rightarrow> nat" where
  "low6 b = unat b mod 64"

fun utf8_decode :: "bytes \<Rightarrow> str option" where
  "utf8_decode [] = Some []"
| "utf8_decode (b0 # bs) =
     (if b0 < 0x80 then
        map_option (\<lambda>t. unat b0 # t) (utf8_decode bs)
      else if 0xC2 \<le> b0 \<and> b0 \<le> 0xDF then
        (case bs of
           b1 # r \<Rightarrow>
             if continuation b1
             then map_option (\<lambda>t. (unat b0 mod 32 * 64 + low6 b1) # t) (utf8_decode r)
             else None
         | _ \<Rightarrow> None)
      else if 0xE0 \<le> b0 \<and> b0 \<le> 0xEF then
        (case bs of
           b1 # b2 # r \<Rightarrow>
             if second_ok b0 b1 \<and> continuation b2
             then map_option
                    (\<lambda>t. (unat b0 mod 16 * 4096 + low6 b1 * 64 + low6 b2) # t)
                    (utf8_decode r)
             else None
         | _ \<Rightarrow> None)
      else if 0xF0 \<le> b0 \<and> b0 \<le> 0xF4 then
        (case bs of
           b1 # b2 # b3 # r \<Rightarrow>
             if second_ok b0 b1 \<and> continuation b2 \<and> continuation b3
             then map_option
                    (\<lambda>t. (unat b0 mod 8 * 262144 + low6 b1 * 4096 + low6 b2 * 64 + low6 b3) # t)
                    (utf8_decode r)
             else None
         | _ \<Rightarrow> None)
      else None)"

subsection \<open>\<^verbatim>\<open>str.splitlines()\<close>\<close>

text \<open>
  \<^verbatim>\<open>str.splitlines\<close> breaks at every universal line boundary: line feed, vertical tab,
  form feed, carriage return, file, group and record separator, next line (U+0085),
  line separator (U+2028) and paragraph separator (U+2029).
\<close>

definition is_linebreak :: "nat \<Rightarrow> bool" where
  "is_linebreak c \<longleftrightarrow>
     c = 0x0A \<or> c = 0x0B \<or> c = 0x0C \<or> c = 0x0D \<or> c = 0x1C \<or> c = 0x1D \<or> c = 0x1E \<or>
     c = 0x85 \<or> c = 0x2028 \<or> c = 0x2029"

text \<open>
  Skipping the boundary a line ended at: a carriage return directly followed by a line
  feed is one boundary, any other boundary is one code point.
\<close>

fun skip_break :: "str \<Rightarrow> str" where
  "skip_break (c # d # cs) = (if c = 0x0D \<and> d = 0x0A then cs else d # cs)"
| "skip_break [c] = []"
| "skip_break [] = []"

text \<open>
  The loop of \<^verbatim>\<open>splitlines\<close> (with \<^verbatim>\<open>keepends=False\<close>): while text remains, scan
  to the next boundary, emit what was scanned as a line, skip the boundary. The empty
  string has no lines, and a boundary at the very end opens no further line.
\<close>

function splitlines :: "str \<Rightarrow> str list" where
  "splitlines s =
     (if s = [] then []
      else takeWhile (\<lambda>c. \<not> is_linebreak c) s
           # splitlines (skip_break (dropWhile (\<lambda>c. \<not> is_linebreak c) s)))"
  by pat_completeness auto
termination
proof (relation "measure length")
  show "wf (measure length)" by simp
next
  fix s :: str
  assume ne: "s \<noteq> []"
  let ?d = "dropWhile (\<lambda>c. \<not> is_linebreak c) s"
  have "length (skip_break d) \<le> length d - 1" for d
    by (cases d rule: skip_break.cases) auto
  then have "length (skip_break ?d) \<le> length ?d - 1" .
  moreover have "length ?d \<le> length s" by (rule length_dropWhile_le)
  moreover have "0 < length s" using ne by simp
  ultimately have "length (skip_break ?d) < length s" by arith
  then show "(skip_break ?d, s) \<in> measure length" by simp
qed

declare splitlines.simps [simp del]

section \<open>The program's world\<close>

subsection \<open>Exceptions\<close>

text \<open>
  The exceptions that can travel through \<^verbatim>\<open>run_container_and_log\<close>. A function that
  may raise returns \<open>exn + 'a\<close> together with the world it leaves behind; a
  \<^verbatim>\<open>try ... except E\<close> is a test of the result against \<open>Inl E\<close>.
  \<open>OtherException\<close> carries the class name of any exception of a collaborator that the
  source does not name (a throttled or unreachable service, a missing image, ...).
\<close>

datatype exn =
    ResourceAlreadyExistsException
  | ResourceNotFoundException
  | NoCredentialsError
  | KeyboardInterrupt
  | UnicodeDecodeError
  | SystemExit nat
  | OtherException str

text \<open>
  What the environment can make a call to a collaborator (the log service, the container
  runtime, the log stream) do instead of returning: miss its credentials, be interrupted
  by the user, or fail in some other way.
\<close>

datatype fault = NoCredentials | Interrupt | Failure str

fun raised :: "fault \<Rightarrow> exn" where
  "raised NoCredentials = NoCredentialsError"
| "raised Interrupt = KeyboardInterrupt"
| "raised (Failure name) = OtherException name"

text \<open>
  \<^verbatim>\<open>main()\<close> ends with the call of \<^verbatim>\<open>run_container_and_log\<close>, so the status of the
  process is decided by how that call ends: a normal return is status 0,
  \<^verbatim>\<open>exit(n)\<close> is status \<open>n\<close>, an uncaught \<^verbatim>\<open>KeyboardInterrupt\<close> is status 130 and
  any other uncaught exception is status 1.
\<close>

fun exit_status :: "exn + unit \<Rightarrow> nat" where
  "exit_status (Inr u) = 0"
| "exit_status (Inl (SystemExit n)) = n"
| "exit_status (Inl KeyboardInterrupt) = 130"
| "exit_status (Inl e) = 1"

subsection \<open>Calls, the world and the environment\<close>

record log_event =
  timestamp :: int
  message :: str

text \<open>
  Every call the program makes to the outside, with its arguments:
  \<^verbatim>\<open>create_log_group(logGroupName)\<close>, \<^verbatim>\<open>create_log_stream(logGroupName, logStreamName)\<close>,
  \<^verbatim>\<open>put_log_events(logGroupName, logStreamName, logEvents)\<close>,
  \<^verbatim>\<open>containers.run(image, command, detach, stdout, stderr)\<close>,
  \<^verbatim>\<open>container.logs(stream, follow)\<close>, \<^verbatim>\<open>container.stop()\<close> and \<^verbatim>\<open>print(text)\<close>.
\<close>

datatype call =
    CreateLogGroup str
  | CreateLogStream str str
  | PutLogEvents str str "log_event list"
  | ContainersRun str "str list" bool bool bool
  | ContainerLogs bool bool
  | ContainerStop
  | Print str

text \<open>
  The world: the log groups and log streams that exist at the service, the calls made so
  far (oldest first) and the number of times the clock has been read.
\<close>

record world =
  groups :: "str list"
  streams :: "(str \<times> str) list"
  calls :: "call list"
  ticks :: nat

text \<open>
  What iterating over \<^verbatim>\<open>container.logs(stream=True, follow=True)\<close> yields, step by
  step: a chunk of bytes, or an exception raised while the loop waits for or holds the
  next chunk (a \<^verbatim>\<open>KeyboardInterrupt\<close> above all). The end of the list is the end of
  the stream: the workload has exited. A feed is finite: over the stream of a workload
  that neither exits nor is interrupted the loop of the source does not return, and such
  a run has no feed here.
\<close>

datatype feed_item = Chunk bytes | Raise fault

text \<open>
  The environment of one run: the fault, if any, of each of the three set-up calls, the
  feed of the log stream, the fault of the \<open>k\<close>-th \<^verbatim>\<open>put_log_events\<close> call (counted
  from 0) and the \<open>k\<close>-th reading of the clock in milliseconds.
\<close>

record env =
  group_fault :: "fault option"
  stream_fault :: "fault option"
  launch_fault :: "fault option"
  feed :: "feed_item list"
  put_fault :: "nat \<Rightarrow> fault option"
  clock :: "nat \<Rightarrow> int"

definition record_call :: "call \<Rightarrow> world \<Rightarrow> world" where
  "record_call c w = w\<lparr>calls := calls w @ [c]\<rparr>"

fun is_put :: "call \<Rightarrow> bool" where
  "is_put (PutLogEvents g s evs) = True"
| "is_put c = False"

definition puts :: "world \<Rightarrow> nat" where
  "puts w = length (filter is_put (calls w))"

text \<open>The batches of lines appended so far: one list of messages per \<^verbatim>\<open>put_log_events\<close> call.\<close>

fun lines_of :: "call \<Rightarrow> str list list" where
  "lines_of (PutLogEvents g s evs) = [map message evs]"
| "lines_of c = []"

definition appends :: "world \<Rightarrow> str list list" where
  "appends w = concat (map lines_of (calls w))"

subsection \<open>The collaborators\<close>

text \<open>
  The log service. Creating a group that exists raises
  \<^verbatim>\<open>ResourceAlreadyExistsException\<close>; so does creating a stream that exists, and
  creating a stream in a group that does not exist raises
  \<^verbatim>\<open>ResourceNotFoundException\<close>. A fault of the environment comes before all of these.
\<close>

definition create_log_group :: "fault option \<Rightarrow> str \<Rightarrow> world \<Rightarrow> (exn + unit) \<times> world" where
  "create_log_group f name w =
     (let w' = record_call (CreateLogGroup name) w in
      case f of
        Some x \<Rightarrow> (Inl (raised x), w')
      | None \<Rightarrow>
          if name \<in> set (groups w') then (Inl ResourceAlreadyExistsException, w')
          else (Inr (), w'\<lparr>groups := name # groups w'\<rparr>))"

definition create_log_stream ::
  "fault option \<Rightarrow> str \<Rightarrow> str \<Rightarrow> world \<Rightarrow> (exn + unit) \<times> world" where
  "create_log_stream f g name w =
     (let w' = record_call (CreateLogStream g name) w in
      case f of
        Some x \<Rightarrow> (Inl (raised x), w')
      | None \<Rightarrow>
          if g \<notin> set (groups w') then (Inl ResourceNotFoundException, w')
          else if (g, name) \<in> set (streams w') then (Inl ResourceAlreadyExistsException, w')
          else (Inr (), w'\<lparr>streams := (g, name) # streams w'\<rparr>))"

definition put_log_events ::
  "fault option \<Rightarrow> str \<Rightarrow> str \<Rightarrow> log_event list \<Rightarrow> world \<Rightarrow> (exn + unit) \<times> world" where
  "put_log_events f g name evs w =
     (let w' = record_call (PutLogEvents g name evs) w in
      case f of Some x \<Rightarrow> (Inl (raised x), w') | None \<Rightarrow> (Inr (), w'))"

text \<open>\<^verbatim>\<open>int(time.time() * 1000)\<close>: one reading of the clock.\<close>

definition time_ms :: "env \<Rightarrow> world \<Rightarrow> int \<times> world" where
  "time_ms en w = (clock en (ticks w), w\<lparr>ticks := Suc (ticks w)\<rparr>)"

definition py_print :: "str \<Rightarrow> world \<Rightarrow> world" where
  "py_print t w = record_call (Print t) w"

text \<open>The handle of a started container; \<^verbatim>\<open>container.stop()\<close> is a request that returns.\<close>

datatype container = Container

definition container_stop :: "container \<Rightarrow> world \<Rightarrow> world" where
  "container_stop c w = record_call ContainerStop w"

section \<open>The program\<close>

subsection \<open>\<^verbatim>\<open>CloudWatchLogger\<close>\<close>

text \<open>
  \<^verbatim>\<open>create_or_get_log_group\<close> and \<^verbatim>\<open>create_or_get_log_stream\<close>: the call is made
  and \<^verbatim>\<open>ResourceAlreadyExistsException\<close>, and only it, is swallowed.
\<close>

definition create_or_get_log_group ::
  "fault option \<Rightarrow> str \<Rightarrow> world \<Rightarrow> (exn + unit) \<times> world" where
  "create_or_get_log_group f group_name w =
     (let (r, w') = create_log_group f group_name w in
      if r = Inl ResourceAlreadyExistsException then (Inr (), w') else (r, w'))"

definition create_or_get_log_stream ::
  "fault option \<Rightarrow> str \<Rightarrow> str \<Rightarrow> world \<Rightarrow> (exn + unit) \<times> world" where
  "create_or_get_log_stream f group_name stream_name w =
     (let (r, w') = create_log_stream f group_name stream_name w in
      if r = Inl ResourceAlreadyExistsException then (Inr (), w') else (r, w'))"

text \<open>
  The list comprehension of \<^verbatim>\<open>send_logs_to_cloudwatch\<close>: one event per line, each with
  its own reading of the clock.
\<close>

fun log_events :: "env \<Rightarrow> str list \<Rightarrow> world \<Rightarrow> log_event list \<times> world" where
  "log_events en [] w = ([], w)"
| "log_events en (line # rest) w =
     (let (t, w1) = time_ms en w;
          (evs, w2) = log_events en rest w1
      in (\<lparr>timestamp = t, message = line\<rparr> # evs, w2))"

text \<open>
  \<^verbatim>\<open>send_logs_to_cloudwatch\<close>: one \<^verbatim>\<open>put_log_events\<close> call for the batch. On
  \<^verbatim>\<open>NoCredentialsError\<close> it prints a message and calls \<^verbatim>\<open>exit(1)\<close>, which raises
  \<^verbatim>\<open>SystemExit(1)\<close>; every other exception passes through.
\<close>

definition send_logs_to_cloudwatch ::
  "env \<Rightarrow> str \<Rightarrow> str \<Rightarrow> str list \<Rightarrow> world \<Rightarrow> (exn + unit) \<times> world" where
  "send_logs_to_cloudwatch en group_name stream_name log_lines w =
     (let (evs, w1) = log_events en log_lines w;
          (r, w2) = put_log_events (put_fault en (puts w1)) group_name stream_name evs w1
      in if r = Inl NoCredentialsError
         then (Inl (SystemExit 1), py_print (ascii ''AWS credentials are invalid.'') w2)
         else (r, w2))"

subsection \<open>\<^verbatim>\<open>DockerRunner\<close>\<close>

record DockerRunner =
  docker_image :: str
  bash_command :: str

text \<open>The apostrophe that the f-string puts on both sides of the command.\<close>

definition apostrophe :: str where
  "apostrophe = [0x27]"

text \<open>
  \<^verbatim>\<open>run_container\<close>: one \<^verbatim>\<open>containers.run\<close> call with the image, the three-element
  command \<^verbatim>\<open>["bash", "-c", f"python -u -c '{self.bash_command}'"]\<close> and
  \<^verbatim>\<open>detach=True, stdout=True, stderr=True\<close>.
\<close>

definition run_container ::
  "fault option \<Rightarrow> DockerRunner \<Rightarrow> world \<Rightarrow> (exn + container) \<times> world" where
  "run_container f self w =
     (let w' = record_call
                 (ContainersRun (docker_image self)
                    [ascii ''bash'', ascii ''-c'',
                     ascii ''python -u -c '' @ apostrophe @ bash_command self @ apostrophe]
                    True True True) w
      in case f of Some x \<Rightarrow> (Inl (raised x), w') | None \<Rightarrow> (Inr Container, w'))"

subsection \<open>\<^verbatim>\<open>DockerCloudWatchLogger\<close>\<close>

record DockerCloudWatchLogger =
  docker_runner :: DockerRunner
  aws_cloudwatch_group :: str
  aws_cloudwatch_stream :: str

text \<open>
  The \<^verbatim>\<open>for\<close> loop of \<^verbatim>\<open>run_container_and_log\<close> over what the log stream yields:
  each chunk is decoded, split into lines and sent; the first exception, whether from the
  stream, from decoding or from sending, ends the loop.
\<close>

fun log_loop :: "DockerCloudWatchLogger \<Rightarrow> env \<Rightarrow> feed_item list \<Rightarrow> world \<Rightarrow> (exn + unit) \<times> world" where
  "log_loop self en [] w = (Inr (), w)"
| "log_loop self en (Raise x # rest) w = (Inl (raised x), w)"
| "log_loop self en (Chunk log_line # rest) w =
     (case utf8_decode log_line of
        None \<Rightarrow> (Inl UnicodeDecodeError, w)
      | Some text \<Rightarrow>
          (let (r, w') = send_logs_to_cloudwatch en (aws_cloudwatch_group self)
                           (aws_cloudwatch_stream self) (splitlines text) w
           in case r of Inl e \<Rightarrow> (Inl e, w') | Inr u \<Rightarrow> log_loop self en rest w'))"

text \<open>
  \<^verbatim>\<open>run_container_and_log\<close>: the group, then the stream, then the container, then the
  loop inside \<^verbatim>\<open>try\<close>; \<^verbatim>\<open>except KeyboardInterrupt\<close> prints a notice and stops the
  container, after which the method returns normally.
\<close>

definition run_container_and_log ::
  "DockerCloudWatchLogger \<Rightarrow> env \<Rightarrow> world \<Rightarrow> (exn + unit) \<times> world" where
  "run_container_and_log self en w =
     (let (r1, w1) = create_or_get_log_group (group_fault en) (aws_cloudwatch_group self) w in
      case r1 of Inl e \<Rightarrow> (Inl e, w1) | Inr u1 \<Rightarrow>
     (let (r2, w2) = create_or_get_log_stream (stream_fault en) (aws_cloudwatch_group self)
                       (aws_cloudwatch_stream self) w1 in
      case r2 of Inl e \<Rightarrow> (Inl e, w2) | Inr u2 \<Rightarrow>
     (let (r3, w3) = run_container (launch_fault en) (docker_runner self) w2 in
      case r3 of Inl e \<Rightarrow> (Inl e, w3) | Inr container \<Rightarrow>
     (let (r4, w4) = log_loop self en (feed en) (record_call (ContainerLogs True True) w3) in
      if r4 = Inl KeyboardInterrupt
      then (Inr (),
            container_stop container
              (py_print (ascii ''Interrupted. Stopping the container...'') w4))
      else (r4, w4)))))"

section \<open>Observations and sample runs\<close>

text \<open>The calls other than \<^verbatim>\<open>put_log_events\<close>, in order.\<close>

definition others :: "world \<Rightarrow> call list" where
  "others w = filter (\<lambda>c. \<not> is_put c) (calls w)"

text \<open>
  The four calls every run makes before its loop can yield a chunk: the group, the stream,
  the container, the log stream of the container.
\<close>

definition started :: "DockerCloudWatchLogger \<Rightarrow> call list" where
  "started self =
     [CreateLogGroup (aws_cloudwatch_group self),
      CreateLogStream (aws_cloudwatch_group self) (aws_cloudwatch_stream self),
      ContainersRun (docker_image (docker_runner self))
        [ascii ''bash'', ascii ''-c'',
         ascii ''python -u -c '' @ apostrophe @ bash_command (docker_runner self) @ apostrophe]
        True True True,
      ContainerLogs True True]"

text \<open>The two calls of the \<^verbatim>\<open>except KeyboardInterrupt\<close> handler.\<close>

definition interrupted :: "call list" where
  "interrupted = [Print (ascii ''Interrupted. Stopping the container...''), ContainerStop]"

text \<open>
  Concrete inputs for the sample runs: a service with no group and no stream, a logger
  for the group \<open>g\<close> and the stream \<open>s\<close>, an environment without faults and one whose
  \<open>n\<close>-th \<^verbatim>\<open>put_log_events\<close> call fails.
\<close>

definition fresh :: world where
  "fresh = \<lparr>groups = [], streams = [], calls = [], ticks = 0\<rparr>"

definition demo :: DockerCloudWatchLogger where
  "demo =
     \<lparr>docker_runner = \<lparr>docker_image = ascii ''python'', bash_command = ascii ''print(1)''\<rparr>,
      aws_cloudwatch_group = ascii ''g'', aws_cloudwatch_stream = ascii ''s''\<rparr>"

definition calm :: "feed_item list \<Rightarrow> env" where
  "calm items =
     \<lparr>group_fault = None, stream_fault = None, launch_fault = None,
      feed = items, put_fault = (\<lambda>k. None), clock = (\<lambda>k. 1000 + int k)\<rparr>"

definition faulty :: "nat \<Rightarrow> fault \<Rightarrow> feed_item list \<Rightarrow> env" where
  "faulty n x items = (calm items)\<lparr>put_fault := (\<lambda>k. if k = n then Some x else None)\<rparr>"

text \<open>The calls a run can make once the container runs.\<close>

fun after_start :: "call \<Rightarrow> bool" where
  "after_start (PutLogEvents g s evs) = True"
| "after_start (Print t) = True"
| "after_start ContainerStop = True"
| "after_start c = False"

text \<open>The command of a \<^verbatim>\<open>containers.run\<close> call.\<close>

fun command_of :: "call \<Rightarrow> str list" where
  "command_of (ContainersRun img argv detach out err) = argv"
| "command_of c = []"

lemmas run_defs =
  run_container_and_log_def create_or_get_log_group_def create_or_get_log_stream_def
  create_log_group_def create_log_stream_def run_container_def record_call_def
  send_logs_to_cloudwatch_def put_log_events_def time_ms_def py_print_def container_stop_def
  puts_def appends_def others_def started_def interrupted_def

lemmas text_defs =
  ascii_def encode_ascii_def continuation_def second_ok_def low6_def
  is_linebreak_def splitlines.simps apostrophe_def

lemmas demo_defs = demo_def calm_def fresh_def faulty_def

section \<open>Line splitting\<close>

lemma splitlines_Nil [simp]: "splitlines [] = []"
  by (simp add: splitlines.simps)

lemma splitlines_plain:
  assumes "s \<noteq> []" and "\<forall>c\<in>set s. \<not> is_linebreak c"
  shows "splitlines s = [s]"
proof -
  have tw: "takeWhile (\<lambda>c. \<not> is_linebreak c) s = s" using assms(2) by (simp add: takeWhile_eq_all_conv)
  have dw: "dropWhile (\<lambda>c. \<not> is_linebreak c) s = []" using assms(2) by simp
  show ?thesis by (subst splitlines.simps) (simp only: tw dw assms(1) if_False skip_break.simps splitlines_Nil)
qed

lemma splitlines_no_break:
  "l \<in> set (splitlines t) \<Longrightarrow> c \<in> set l \<Longrightarrow> \<not> is_linebreak c"
proof (induction t rule: splitlines.induct)
  case (1 s)
  show ?case
  proof (cases "s = []")
    case True
    with "1.prems" show ?thesis by simp
  next
    case False
    from "1.prems"(1) False
    have "l = takeWhile (\<lambda>c. \<not> is_linebreak c) s
          \<or> l \<in> set (splitlines (skip_break (dropWhile (\<lambda>c. \<not> is_linebreak c) s)))"
      by (subst (asm) splitlines.simps) simp
    then show ?thesis
    proof
      assume "l = takeWhile (\<lambda>c. \<not> is_linebreak c) s"
      with "1.prems"(2) show ?thesis by (auto dest: set_takeWhileD)
    next
      assume "l \<in> set (splitlines (skip_break (dropWhile (\<lambda>c. \<not> is_linebreak c) s)))"
      with "1.IH" False "1.prems"(2) show ?thesis by blast
    qed
  qed
qed

lemma filter_skip_break:
  assumes "d = [] \<or> is_linebreak (hd d)"
  shows "filter (\<lambda>c. \<not> is_linebreak c) (skip_break d) = filter (\<lambda>c. \<not> is_linebreak c) d"
  using assms by (cases d rule: skip_break.cases) (auto simp: is_linebreak_def)

lemma dropWhile_starts_break:
  "dropWhile (\<lambda>c. \<not> is_linebreak c) s = [] \<or> is_linebreak (hd (dropWhile (\<lambda>c. \<not> is_linebreak c) s))"
  using hd_dropWhile [of "\<lambda>c. \<not> is_linebreak c" s] by auto

lemma filter_take_drop:
  "filter P s = takeWhile P s @ filter P (dropWhile P s)"
  by (induction s) auto

lemma concat_splitlines:
  "concat (splitlines t) = filter (\<lambda>c. \<not> is_linebreak c) t"
proof (induction t rule: splitlines.induct)
  case (1 s)
  show ?case
  proof (cases "s = []")
    case True
    then show ?thesis by simp
  next
    case False
    let ?P = "\<lambda>c. \<not> is_linebreak c"
    have "concat (splitlines s) = takeWhile ?P s @ concat (splitlines (skip_break (dropWhile ?P s)))"
      using False by (subst splitlines.simps) simp
    also have "\<dots> = takeWhile ?P s @ filter ?P (skip_break (dropWhile ?P s))"
      using "1.IH" False by simp
    also have "\<dots> = takeWhile ?P s @ filter ?P (dropWhile ?P s)"
      using filter_skip_break [OF dropWhile_starts_break] by simp
    also have "\<dots> = filter ?P s" by (rule filter_take_drop [symmetric])
    finally show ?thesis .
  qed
qed

lemma skip_break_append:
  assumes "d \<noteq> []" and "\<not> (d = [0x0D] \<and> b \<noteq> [] \<and> hd b = 0x0A)"
  shows "skip_break (d @ b) = skip_break d @ b"
proof (cases d rule: skip_break.cases)
  case (1 c e cs)
  then show ?thesis by simp
next
  case (2 c)
  with assms(2) show ?thesis by (cases b) auto
next
  case 3
  with assms(1) show ?thesis by simp
qed

lemma last_skip_break:
  "skip_break d \<noteq> [] \<Longrightarrow> last (skip_break d) = last d"
  by (cases d rule: skip_break.cases) (auto split: if_splits)

lemma splitlines_append:
  assumes "a = [] \<or> is_linebreak (last a)"
    and "\<not> (a \<noteq> [] \<and> last a = 0x0D \<and> b \<noteq> [] \<and> hd b = 0x0A)"
  shows "splitlines (a @ b) = splitlines a @ splitlines b"
  using assms
proof (induction a rule: splitlines.induct)
  case (1 s)
  show ?case
  proof (cases "s = []")
    case True
    then show ?thesis by simp
  next
    case False
    let ?P = "\<lambda>c. \<not> is_linebreak c"
    let ?d = "dropWhile ?P s"
    from False "1.prems"(1) have brk: "is_linebreak (last s)" by simp
    have mem: "last s \<in> set s" using False by simp
    have tw: "takeWhile ?P (s @ b) = takeWhile ?P s"
      using mem brk by (intro takeWhile_append1 [of "last s"]) auto
    have dw: "dropWhile ?P (s @ b) = ?d @ b"
      using mem brk by (intro dropWhile_append1 [of "last s"]) auto
    have dne: "?d \<noteq> []" using mem brk by (auto simp: dropWhile_eq_Nil_conv)
    have "last (takeWhile ?P s @ ?d) = last ?d" using dne by (rule last_appendR)
    then have lastd: "last ?d = last s" by simp
    have nocr: "\<not> (?d = [0x0D] \<and> b \<noteq> [] \<and> hd b = 0x0A)"
    proof
      assume h: "?d = [0x0D] \<and> b \<noteq> [] \<and> hd b = 0x0A"
      then have "last s = 0x0D" using lastd by simp
      with h False "1.prems"(2) show False by simp
    qed
    have sk: "skip_break (?d @ b) = skip_break ?d @ b"
      by (rule skip_break_append [OF dne nocr])
    have lsk: "skip_break ?d \<noteq> [] \<Longrightarrow> last (skip_break ?d) = last s"
      using last_skip_break [of ?d] lastd by simp
    have c1: "skip_break ?d = [] \<or> is_linebreak (last (skip_break ?d))"
    proof (cases "skip_break ?d = []")
      case True
      then show ?thesis by simp
    next
      case False
      then show ?thesis using lsk brk by simp
    qed
    have c2: "\<not> (skip_break ?d \<noteq> [] \<and> last (skip_break ?d) = 0x0D \<and> b \<noteq> [] \<and> hd b = 0x0A)"
    proof
      assume h: "skip_break ?d \<noteq> [] \<and> last (skip_break ?d) = 0x0D \<and> b \<noteq> [] \<and> hd b = 0x0A"
      then have "last s = 0x0D" using lsk by simp
      with h False "1.prems"(2) show False by simp
    qed
    have ih: "splitlines (skip_break ?d @ b) = splitlines (skip_break ?d) @ splitlines b"
      using "1.IH" [OF False c1 c2] .
    have "splitlines (s @ b) = takeWhile ?P s # splitlines (skip_break ?d @ b)"
      using False tw dw sk by (subst splitlines.simps) simp
    also have "\<dots> = (takeWhile ?P s # splitlines (skip_break ?d)) @ splitlines b"
      using ih by simp
    also have "takeWhile ?P s # splitlines (skip_break ?d) = splitlines s"
      using False by (subst (2) splitlines.simps) simp
    finally show ?thesis .
  qed
qed

section \<open>Sending and the loop\<close>

lemma log_events_props:
  "log_events en ls w = (evs, w') \<Longrightarrow>
     map message evs = ls \<and> calls w' = calls w \<and> groups w' = groups w \<and> streams w' = streams w"
proof (induction ls arbitrary: w evs w')
  case Nil
  then show ?case by simp
next
  case (Cons l ls)
  obtain es w2 where rec: "log_events en ls (w\<lparr>ticks := Suc (ticks w)\<rparr>) = (es, w2)"
    by (cases "log_events en ls (w\<lparr>ticks := Suc (ticks w)\<rparr>)")
  from Cons.prems rec have evs: "evs = \<lparr>timestamp = clock en (ticks w), message = l\<rparr> # es" and w': "w' = w2"
    by (simp_all add: time_ms_def)
  from Cons.IH [OF rec] evs w' show ?case by simp
qed

lemma send_logs_calls:
  "\<exists>evs w'. map message evs = ls \<and>
     send_logs_to_cloudwatch en g s ls w =
       (case put_fault en (puts w) of
          None \<Rightarrow> (Inr (), w'\<lparr>calls := calls w @ [PutLogEvents g s evs]\<rparr>)
        | Some NoCredentials \<Rightarrow>
            (Inl (SystemExit 1),
             w'\<lparr>calls := calls w @ [PutLogEvents g s evs, Print (ascii ''AWS credentials are invalid.'')]\<rparr>)
        | Some x \<Rightarrow> (Inl (raised x), w'\<lparr>calls := calls w @ [PutLogEvents g s evs]\<rparr>)) \<and>
     calls w' = calls w \<and> groups w' = groups w \<and> streams w' = streams w"
proof -
  obtain evs w1 where le: "log_events en ls w = (evs, w1)" by (cases "log_events en ls w")
  note p = log_events_props [OF le]
  have pu: "puts w1 = puts w" using p by (simp add: puts_def)
  show ?thesis
    apply (rule exI [of _ evs], rule exI [of _ w1])
    using p pu le
    by (auto simp: send_logs_to_cloudwatch_def put_log_events_def record_call_def py_print_def
        split: option.splits fault.splits)
qed

lemma puts_append: "calls w' = calls w @ map (PutLogEvents g s) evss \<Longrightarrow> puts w' = puts w + length evss"
  by (simp add: puts_def filter_True [of "map (PutLogEvents g s) evss"])

lemma send_ok:
  assumes "put_fault en (puts w) = None"
  shows "\<exists>evs w'. send_logs_to_cloudwatch en g s ls w = (Inr (), w') \<and>
           calls w' = calls w @ [PutLogEvents g s evs] \<and> map message evs = ls"
proof -
  obtain evs w0 where h: "map message evs = ls"
      "send_logs_to_cloudwatch en g s ls w =
       (case put_fault en (puts w) of
          None \<Rightarrow> (Inr (), w0\<lparr>calls := calls w @ [PutLogEvents g s evs]\<rparr>)
        | Some NoCredentials \<Rightarrow>
            (Inl (SystemExit 1),
             w0\<lparr>calls := calls w @ [PutLogEvents g s evs, Print (ascii ''AWS credentials are invalid.'')]\<rparr>)
        | Some x \<Rightarrow> (Inl (raised x), w0\<lparr>calls := calls w @ [PutLogEvents g s evs]\<rparr>))"
    using send_logs_calls [of ls en g s w] by blast
  from h(2) assms have "send_logs_to_cloudwatch en g s ls w = (Inr (), w0\<lparr>calls := calls w @ [PutLogEvents g s evs]\<rparr>)"
    by simp
  with h(1) show ?thesis by force
qed

lemma send_fail:
  assumes "put_fault en (puts w) = Some x"
  shows "\<exists>evs w'. send_logs_to_cloudwatch en g s ls w =
             (Inl (if x = NoCredentials then SystemExit 1 else raised x), w') \<and>
           calls w' = calls w @ PutLogEvents g s evs #
             (if x = NoCredentials then [Print (ascii ''AWS credentials are invalid.'')] else []) \<and>
           map message evs = ls"
proof -
  obtain evs w0 where h: "map message evs = ls"
      "send_logs_to_cloudwatch en g s ls w =
       (case put_fault en (puts w) of
          None \<Rightarrow> (Inr (), w0\<lparr>calls := calls w @ [PutLogEvents g s evs]\<rparr>)
        | Some NoCredentials \<Rightarrow>
            (Inl (SystemExit 1),
             w0\<lparr>calls := calls w @ [PutLogEvents g s evs, Print (ascii ''AWS credentials are invalid.'')]\<rparr>)
        | Some x \<Rightarrow> (Inl (raised x), w0\<lparr>calls := calls w @ [PutLogEvents g s evs]\<rparr>))"
    using send_logs_calls [of ls en g s w] by blast
  show ?thesis
  proof (cases "x = NoCredentials")
    case True
    with h(2) assms have "send_logs_to_cloudwatch en g s ls w = (Inl (SystemExit 1),
             w0\<lparr>calls := calls w @ [PutLogEvents g s evs, Print (ascii ''AWS credentials are invalid.'')]\<rparr>)"
      by simp
    with h(1) True show ?thesis by force
  next
    case False
    with h(2) assms have "send_logs_to_cloudwatch en g s ls w =
        (Inl (raised x), w0\<lparr>calls := calls w @ [PutLogEvents g s evs]\<rparr>)"
      by (cases x) simp_all
    with h(1) False show ?thesis by force
  qed
qed

lemma log_loop_chunks:
  assumes "map utf8_decode cs = map Some ts"
    and "\<forall>k<length cs. put_fault en (puts w + k) = None"
  shows "\<exists>evss w'. log_loop self en (map Chunk cs @ rest) w = log_loop self en rest w' \<and>
           calls w' = calls w @ map (PutLogEvents (aws_cloudwatch_group self) (aws_cloudwatch_stream self)) evss \<and>
           map (map message) evss = map splitlines ts"
  using assms
proof (induction cs arbitrary: ts w)
  case Nil
  then have "ts = []" by simp
  then show ?case by (intro exI [of _ "[]"] exI [of _ w]) simp
next
  case (Cons c cs)
  let ?g = "aws_cloudwatch_group self" and ?s = "aws_cloudwatch_stream self"
  from Cons.prems(1) obtain t ts' where ts: "ts = t # ts'" and dc: "utf8_decode c = Some t"
    and rest: "map utf8_decode cs = map Some ts'" by (cases ts) auto
  from Cons.prems(2) have p0: "put_fault en (puts w) = None" by force
  from send_ok [OF p0, of ?g ?s "splitlines t"] obtain evs w1
    where s1: "send_logs_to_cloudwatch en ?g ?s (splitlines t) w = (Inr (), w1)"
      and c1: "calls w1 = calls w @ [PutLogEvents ?g ?s evs]" and m1: "map message evs = splitlines t"
    by blast
  have pw1: "puts w1 = Suc (puts w)" using c1 by (simp add: puts_def)
  have "\<forall>k<length cs. put_fault en (puts w1 + k) = None"
  proof (intro allI impI)
    fix k assume "k < length cs"
    then have "Suc k < length (c # cs)" by simp
    with Cons.prems(2) have "put_fault en (puts w + Suc k) = None" by blast
    then show "put_fault en (puts w1 + k) = None" using pw1 by simp
  qed
  from Cons.IH [OF rest this] obtain evss w' where
    l: "log_loop self en (map Chunk cs @ rest) w1 = log_loop self en rest w'"
    and c: "calls w' = calls w1 @ map (PutLogEvents ?g ?s) evss"
    and m: "map (map message) evss = map splitlines ts'" by blast
  have "log_loop self en (map Chunk (c # cs) @ rest) w = log_loop self en rest w'"
    using dc s1 l by simp
  moreover have "calls w' = calls w @ map (PutLogEvents ?g ?s) (evs # evss)" using c c1 by simp
  moreover have "map (map message) (evs # evss) = map splitlines ts" using m m1 ts by simp
  ultimately show ?case by blast
qed

lemma raised_not_decode: "raised x \<noteq> UnicodeDecodeError"
  by (cases x) simp_all

lemma send_result:
  "fst (send_logs_to_cloudwatch en g s ls w) \<noteq> Inl UnicodeDecodeError"
proof (cases "put_fault en (puts w)")
  case None
  from send_ok [OF None, of g s ls] show ?thesis by force
next
  case (Some x)
  from send_fail [OF Some, of g s ls] obtain w' where
    "send_logs_to_cloudwatch en g s ls w = (Inl (if x = NoCredentials then SystemExit 1 else raised x), w')"
    by blast
  then show ?thesis using raised_not_decode [of x] by (cases "x = NoCredentials") simp_all
qed

lemma log_loop_no_decode_error:
  "\<forall>c. Chunk c \<in> set items \<longrightarrow> utf8_decode c \<noteq> None \<Longrightarrow>
     fst (log_loop self en items w) \<noteq> Inl UnicodeDecodeError"
proof (induction items arbitrary: w)
  case Nil
  then show ?case by simp
next
  case (Cons i items)
  show ?case
  proof (cases i)
    case (Raise x)
    then show ?thesis by (simp add: raised_not_decode)
  next
    case (Chunk c)
    with Cons.prems obtain t where dc: "utf8_decode c = Some t" by auto
    let ?r = "send_logs_to_cloudwatch en (aws_cloudwatch_group self) (aws_cloudwatch_stream self) (splitlines t) w"
    obtain r w1 where s: "?r = (r, w1)" by (cases ?r)
    have nr: "r \<noteq> Inl UnicodeDecodeError"
      using send_result [of en "aws_cloudwatch_group self" "aws_cloudwatch_stream self" "splitlines t" w] s by simp
    from Cons.prems have "\<forall>c. Chunk c \<in> set items \<longrightarrow> utf8_decode c \<noteq> None" by simp
    from Cons.IH [OF this] have ih: "fst (log_loop self en items w1) \<noteq> Inl UnicodeDecodeError" .
    show ?thesis using Chunk dc s nr ih by (cases r) auto
  qed
qed

section \<open>Set-up\<close>

lemma raised_not_exists: "raised x \<noteq> ResourceAlreadyExistsException"
  by (cases x) simp_all

lemma create_or_get_log_group_ok:
  "\<exists>w'. create_or_get_log_group None name w = (Inr (), w') \<and>
        calls w' = calls w @ [CreateLogGroup name] \<and> name \<in> set (groups w') \<and>
        (name \<in> set (groups w) \<longrightarrow> groups w' = groups w) \<and> streams w' = streams w"
  by (cases "name \<in> set (groups w)")
    (simp_all add: create_or_get_log_group_def create_log_group_def record_call_def)

lemma create_or_get_log_group_fault:
  "create_or_get_log_group (Some x) name w = (Inl (raised x), record_call (CreateLogGroup name) w)"
  by (simp add: create_or_get_log_group_def create_log_group_def raised_not_exists)

lemma create_or_get_log_stream_ok:
  assumes "g \<in> set (groups w)"
  shows "\<exists>w'. create_or_get_log_stream None g name w = (Inr (), w') \<and>
        calls w' = calls w @ [CreateLogStream g name] \<and> (g, name) \<in> set (streams w') \<and>
        ((g, name) \<in> set (streams w) \<longrightarrow> streams w' = streams w) \<and> groups w' = groups w"
  using assms by (cases "(g, name) \<in> set (streams w)")
    (simp_all add: create_or_get_log_stream_def create_log_stream_def record_call_def)

lemma create_or_get_log_stream_fault:
  "create_or_get_log_stream (Some x) g name w =
     (Inl (raised x), record_call (CreateLogStream g name) w)"
  by (simp add: create_or_get_log_stream_def create_log_stream_def raised_not_exists)

lemma create_or_get_log_stream_no_group:
  "g \<notin> set (groups w) \<Longrightarrow>
   create_or_get_log_stream None g name w =
     (Inl ResourceNotFoundException, record_call (CreateLogStream g name) w)"
  by (simp add: create_or_get_log_stream_def create_log_stream_def record_call_def)

lemma run_after_setup:
  assumes "group_fault en = None" and "stream_fault en = None" and "launch_fault en = None"
  shows "\<exists>w3. calls w3 = calls w @ started self \<and>
           run_container_and_log self en w =
             (case log_loop self en (feed en) w3 of
                (r4, w4) \<Rightarrow>
                  if r4 = Inl KeyboardInterrupt
                  then (Inr (), w4\<lparr>calls := calls w4 @ interrupted\<rparr>)
                  else (r4, w4))"
proof -
  let ?g = "aws_cloudwatch_group self" and ?s = "aws_cloudwatch_stream self"
  obtain w1 where r1: "create_or_get_log_group None ?g w = (Inr (), w1)"
    and c1: "calls w1 = calls w @ [CreateLogGroup ?g]" and g1: "?g \<in> set (groups w1)"
    using create_or_get_log_group_ok [of ?g w] by blast
  obtain w2 where r2: "create_or_get_log_stream None ?g ?s w1 = (Inr (), w2)"
    and c2: "calls w2 = calls w1 @ [CreateLogStream ?g ?s]"
    using create_or_get_log_stream_ok [OF g1, of ?s] by blast
  let ?w3 = "record_call (ContainerLogs True True) (snd (run_container None (docker_runner self) w2))"
  have c3: "calls ?w3 = calls w @ started self"
    using c1 c2 by (simp add: run_container_def record_call_def started_def)
  have "run_container_and_log self en w =
             (case log_loop self en (feed en) ?w3 of
                (r4, w4) \<Rightarrow>
                  if r4 = Inl KeyboardInterrupt
                  then (Inr (), w4\<lparr>calls := calls w4 @ interrupted\<rparr>)
                  else (r4, w4))"
    using assms r1 r2
    by (simp add: run_container_and_log_def run_container_def record_call_def py_print_def
        container_stop_def interrupted_def split: prod.splits)
  with c3 show ?thesis by blast
qed

lemma concat_splitlines_aligned:
  "\<forall>t\<in>set ts. t = [] \<or> last t = 0x0A \<Longrightarrow> concat (map splitlines ts) = splitlines (concat ts)"
proof (induction ts)
  case Nil
  then show ?case by simp
next
  case (Cons t ts)
  from Cons.prems have t: "t = [] \<or> last t = 0x0A" by simp
  then have a1: "t = [] \<or> is_linebreak (last t)" by (auto simp: is_linebreak_def)
  have a2: "\<not> (t \<noteq> [] \<and> last t = 0x0D \<and> concat ts \<noteq> [] \<and> hd (concat ts) = 0x0A)"
    using t by auto
  have "splitlines (t @ concat ts) = splitlines t @ splitlines (concat ts)"
    by (rule splitlines_append [OF a1 a2])
  with Cons show ?case by simp
qed

section \<open>Runs\<close>

lemma lines_of_started: "concat (map lines_of (started self)) = []"
  by (simp add: started_def)

lemma puts_started: "filter is_put (started self) = []"
  by (simp add: started_def)

lemma run_prefix:
  assumes "calls w = []"
    and "group_fault en = None" and "stream_fault en = None" and "launch_fault en = None"
    and "feed en = map Chunk cs @ rest"
    and "map utf8_decode cs = map Some ts"
    and "\<forall>k<length cs. put_fault en k = None"
  shows "\<exists>evss w'.
           calls w' = started self @
             map (PutLogEvents (aws_cloudwatch_group self) (aws_cloudwatch_stream self)) evss \<and>
           map (map message) evss = map splitlines ts \<and>
           puts w' = length cs \<and>
           run_container_and_log self en w =
             (case log_loop self en rest w' of
                (r4, w4) \<Rightarrow>
                  if r4 = Inl KeyboardInterrupt
                  then (Inr (), w4\<lparr>calls := calls w4 @ interrupted\<rparr>)
                  else (r4, w4))"
proof -
  let ?g = "aws_cloudwatch_group self" and ?s = "aws_cloudwatch_stream self"
  from run_after_setup [OF assms(2-4), of w self] assms(1) obtain w3 where
    c3: "calls w3 = started self"
    and run: "run_container_and_log self en w =
             (case log_loop self en (feed en) w3 of
                (r4, w4) \<Rightarrow>
                  if r4 = Inl KeyboardInterrupt
                  then (Inr (), w4\<lparr>calls := calls w4 @ interrupted\<rparr>)
                  else (r4, w4))" by auto
  have p3: "puts w3 = 0" using c3 by (simp add: puts_def puts_started)
  have "\<forall>k<length cs. put_fault en (puts w3 + k) = None" using assms(7) p3 by simp
  from log_loop_chunks [OF assms(6) this, of self rest] obtain evss w' where
    l: "log_loop self en (map Chunk cs @ rest) w3 = log_loop self en rest w'"
    and c: "calls w' = calls w3 @ map (PutLogEvents ?g ?s) evss"
    and m: "map (map message) evss = map splitlines ts" by auto
  have len: "length evss = length cs"
  proof -
    have "length evss = length (map (map message) evss)" by simp
    also have "\<dots> = length (map splitlines ts)" using m by simp
    also have "\<dots> = length (map Some ts)" by simp
    also have "\<dots> = length (map utf8_decode cs)" using assms(6) by simp
    finally show ?thesis by simp
  qed
  have pw: "puts w' = length cs" using puts_append [OF c] p3 len by simp
  have cw: "calls w' = started self @ map (PutLogEvents ?g ?s) evss" using c c3 by simp
  show ?thesis using run l assms(5) cw m pw by auto
qed

lemma run_all_chunks:
  assumes "calls w = []"
    and "group_fault en = None" and "stream_fault en = None" and "launch_fault en = None"
    and "feed en = map Chunk cs"
    and "map utf8_decode cs = map Some ts"
    and "\<forall>k<length cs. put_fault en k = None"
  shows "\<exists>evss w'.
           calls w' = started self @
             map (PutLogEvents (aws_cloudwatch_group self) (aws_cloudwatch_stream self)) evss \<and>
           map (map message) evss = map splitlines ts \<and>
           run_container_and_log self en w = (Inr (), w')"
proof -
  have f: "feed en = map Chunk cs @ []" using assms(5) by simp
  from run_prefix [OF assms(1-4) f assms(6,7), of self] show ?thesis by auto
qed

lemma run_put_fault:
  assumes "calls w = []"
    and "group_fault en = None" and "stream_fault en = None" and "launch_fault en = None"
    and "feed en = map Chunk cs @ Chunk c # rest"
    and "map utf8_decode cs = map Some ts"
    and "\<forall>k<length cs. put_fault en k = None"
    and "utf8_decode c = Some t"
    and "put_fault en (length cs) = Some x"
  shows "\<exists>evss evs w'.
           calls w' = started self @
             map (PutLogEvents (aws_cloudwatch_group self) (aws_cloudwatch_stream self)) evss @
             PutLogEvents (aws_cloudwatch_group self) (aws_cloudwatch_stream self) evs #
             (if x = NoCredentials then [Print (ascii ''AWS credentials are invalid.'')] else []) \<and>
           map (map message) evss = map splitlines ts \<and>
           map message evs = splitlines t \<and>
           run_container_and_log self en w =
             (if x = Interrupt then (Inr (), w'\<lparr>calls := calls w' @ interrupted\<rparr>)
              else (Inl (if x = NoCredentials then SystemExit 1 else raised x), w'))"
proof -
  let ?g = "aws_cloudwatch_group self" and ?s = "aws_cloudwatch_stream self"
  from run_prefix [OF assms(1-7), of self] obtain evss w1 where
    c1: "calls w1 = started self @ map (PutLogEvents ?g ?s) evss"
    and m1: "map (map message) evss = map splitlines ts"
    and p1: "puts w1 = length cs"
    and run: "run_container_and_log self en w =
             (case log_loop self en (Chunk c # rest) w1 of
                (r4, w4) \<Rightarrow>
                  if r4 = Inl KeyboardInterrupt
                  then (Inr (), w4\<lparr>calls := calls w4 @ interrupted\<rparr>)
                  else (r4, w4))" by blast
  have pf: "put_fault en (puts w1) = Some x" using assms(9) p1 by simp
  from send_fail [OF pf, of ?g ?s "splitlines t"] obtain evs w2 where
    s2: "send_logs_to_cloudwatch en ?g ?s (splitlines t) w1 =
             (Inl (if x = NoCredentials then SystemExit 1 else raised x), w2)"
    and c2: "calls w2 = calls w1 @ PutLogEvents ?g ?s evs #
             (if x = NoCredentials then [Print (ascii ''AWS credentials are invalid.'')] else [])"
    and m2: "map message evs = splitlines t" by blast
  have l: "log_loop self en (Chunk c # rest) w1 =
             (Inl (if x = NoCredentials then SystemExit 1 else raised x), w2)"
    using assms(8) s2 by simp
  have r: "run_container_and_log self en w =
             (if x = Interrupt then (Inr (), w2\<lparr>calls := calls w2 @ interrupted\<rparr>)
              else (Inl (if x = NoCredentials then SystemExit 1 else raised x), w2))"
    using run l by (cases x) simp_all
  have cw: "calls w2 = started self @ map (PutLogEvents ?g ?s) evss @ PutLogEvents ?g ?s evs #
             (if x = NoCredentials then [Print (ascii ''AWS credentials are invalid.'')] else [])"
    using c1 c2 by simp
  from cw m1 m2 r show ?thesis by blast
qed

lemma run_raise:
  assumes "calls w = []"
    and "group_fault en = None" and "stream_fault en = None" and "launch_fault en = None"
    and "feed en = map Chunk cs @ Raise x # rest"
    and "map utf8_decode cs = map Some ts"
    and "\<forall>k<length cs. put_fault en k = None"
  shows "\<exists>evss w'.
           calls w' = started self @
             map (PutLogEvents (aws_cloudwatch_group self) (aws_cloudwatch_stream self)) evss \<and>
           map (map message) evss = map splitlines ts \<and>
           run_container_and_log self en w =
             (if x = Interrupt then (Inr (), w'\<lparr>calls := calls w' @ interrupted\<rparr>)
              else (Inl (raised x), w'))"
proof -
  from run_prefix [OF assms(1-7), of self] obtain evss w1 where
    c1: "calls w1 = started self @
          map (PutLogEvents (aws_cloudwatch_group self) (aws_cloudwatch_stream self)) evss"
    and m1: "map (map message) evss = map splitlines ts"
    and run: "run_container_and_log self en w =
             (case log_loop self en (Raise x # rest) w1 of
                (r4, w4) \<Rightarrow>
                  if r4 = Inl KeyboardInterrupt
                  then (Inr (), w4\<lparr>calls := calls w4 @ interrupted\<rparr>)
                  else (r4, w4))" by blast
  have "run_container_and_log self en w =
             (if x = Interrupt then (Inr (), w1\<lparr>calls := calls w1 @ interrupted\<rparr>)
              else (Inl (raised x), w1))"
    using run by (cases x) simp_all
  with c1 m1 show ?thesis by blast
qed

lemma run_undecodable:
  assumes "calls w = []"
    and "group_fault en = None" and "stream_fault en = None" and "launch_fault en = None"
    and "feed en = map Chunk cs @ Chunk c # rest"
    and "map utf8_decode cs = map Some ts"
    and "\<forall>k<length cs. put_fault en k = None"
    and "utf8_decode c = None"
  shows "\<exists>evss w'.
           calls w' = started self @
             map (PutLogEvents (aws_cloudwatch_group self) (aws_cloudwatch_stream self)) evss \<and>
           map (map message) evss = map splitlines ts \<and>
           run_container_and_log self en w = (Inl UnicodeDecodeError, w')"
proof -
  from run_prefix [OF assms(1-7), of self] obtain evss w1 where
    c1: "calls w1 = started self @
          map (PutLogEvents (aws_cloudwatch_group self) (aws_cloudwatch_stream self)) evss"
    and m1: "map (map message) evss = map splitlines ts"
    and run: "run_container_and_log self en w =
             (case log_loop self en (Chunk c # rest) w1 of
                (r4, w4) \<Rightarrow>
                  if r4 = Inl KeyboardInterrupt
                  then (Inr (), w4\<lparr>calls := calls w4 @ interrupted\<rparr>)
                  else (r4, w4))" by blast
  have "run_container_and_log self en w = (Inl UnicodeDecodeError, w1)"
    using run assms(8) by simp
  with c1 m1 show ?thesis by blast
qed

lemma appends_shape:
  assumes "calls w = started self @ map (PutLogEvents g s) evss @ tail"
  shows "appends w = map (map message) evss @ concat (map lines_of tail)"
proof -
  have "concat (map (lines_of \<circ> PutLogEvents g s) evss) = map (map message) evss"
    by (induction evss) simp_all
  then show ?thesis using assms by (simp add: appends_def lines_of_started)
qed

lemma others_shape:
  assumes "calls w = started self @ map (PutLogEvents g s) evss @ tail"
  shows "others w = started self @ filter (\<lambda>c. \<not> is_put c) tail"
proof -
  have "filter (\<lambda>c. \<not> is_put c) (started self) = started self" by (simp add: started_def)
  then show ?thesis using assms by (simp add: others_def)
qed

lemma splitlines_at_break:
  assumes "\<forall>x\<in>set u. \<not> is_linebreak x" and "is_linebreak b"
    and "\<not> (b = 0x0D \<and> v \<noteq> [] \<and> hd v = 0x0A)"
  shows "splitlines (u @ b # v) = u # splitlines v"
proof -
  let ?P = "\<lambda>c. \<not> is_linebreak c"
  have tw: "takeWhile ?P (u @ b # v) = u" using assms(1,2) by (simp add: takeWhile_append2)
  have dw: "dropWhile ?P (u @ b # v) = b # v" using assms(1,2) by (simp add: dropWhile_append2)
  have sk: "skip_break (b # v) = v" using assms(3) by (cases v) auto
  show ?thesis by (subst splitlines.simps) (simp add: tw dw sk)
qed

lemma splitlines_at_crlf:
  assumes "\<forall>x\<in>set u. \<not> is_linebreak x"
  shows "splitlines (u @ 0x0D # 0x0A # v) = u # splitlines v"
proof -
  let ?P = "\<lambda>c. \<not> is_linebreak c"
  have b: "is_linebreak 0x0D" by (simp add: is_linebreak_def)
  have tw: "takeWhile ?P (u @ 0x0D # 0x0A # v) = u" using assms b by (simp add: takeWhile_append2)
  have dw: "dropWhile ?P (u @ 0x0D # 0x0A # v) = 0x0D # 0x0A # v"
    using assms b by (simp add: dropWhile_append2)
  show ?thesis by (subst splitlines.simps) (simp add: tw dw)
qed

lemma splitlines_partial:
  assumes "p = [] \<or> is_linebreak (last p)" and "s \<noteq> []" and "\<forall>x\<in>set s. \<not> is_linebreak x"
  shows "splitlines (p @ s) = splitlines p @ [s]"
proof -
  have "hd s \<in> set s" using assms(2) by simp
  then have "\<not> is_linebreak (hd s)" using assms(3) by blast
  then have "hd s \<noteq> 0x0A" by (auto simp: is_linebreak_def)
  then have c2: "\<not> (p \<noteq> [] \<and> last p = 0x0D \<and> s \<noteq> [] \<and> hd s = 0x0A)" by simp
  show ?thesis
    using splitlines_append [OF assms(1) c2] splitlines_plain [OF assms(2,3)] by simp
qed

lemma run_group_fault:
  "group_fault en = Some x \<Longrightarrow>
   run_container_and_log self en w =
     (Inl (raised x), record_call (CreateLogGroup (aws_cloudwatch_group self)) w)"
  by (simp add: run_container_and_log_def create_or_get_log_group_fault)

lemma run_stream_fault:
  assumes "group_fault en = None" and "stream_fault en = Some x"
  shows "\<exists>w'. run_container_and_log self en w = (Inl (raised x), w') \<and>
           calls w' = calls w @ [CreateLogGroup (aws_cloudwatch_group self),
             CreateLogStream (aws_cloudwatch_group self) (aws_cloudwatch_stream self)]"
proof -
  let ?g = "aws_cloudwatch_group self" and ?s = "aws_cloudwatch_stream self"
  obtain w1 where r1: "create_or_get_log_group None ?g w = (Inr (), w1)"
    and c1: "calls w1 = calls w @ [CreateLogGroup ?g]"
    using create_or_get_log_group_ok [of ?g w] by blast
  have "run_container_and_log self en w = (Inl (raised x), record_call (CreateLogStream ?g ?s) w1)"
    using assms r1 by (simp add: run_container_and_log_def create_or_get_log_stream_fault)
  moreover have "calls (record_call (CreateLogStream ?g ?s) w1) =
      calls w @ [CreateLogGroup ?g, CreateLogStream ?g ?s]"
    using c1 by (simp add: record_call_def)
  ultimately show ?thesis by blast
qed

lemma run_launch_fault:
  assumes "group_fault en = None" and "stream_fault en = None" and "launch_fault en = Some x"
  shows "\<exists>w'. run_container_and_log self en w = (Inl (raised x), w') \<and>
           calls w' = calls w @ butlast (started self)"
proof -
  let ?g = "aws_cloudwatch_group self" and ?s = "aws_cloudwatch_stream self"
  obtain w1 where r1: "create_or_get_log_group None ?g w = (Inr (), w1)"
    and c1: "calls w1 = calls w @ [CreateLogGroup ?g]" and g1: "?g \<in> set (groups w1)"
    using create_or_get_log_group_ok [of ?g w] by blast
  obtain w2 where r2: "create_or_get_log_stream None ?g ?s w1 = (Inr (), w2)"
    and c2: "calls w2 = calls w1 @ [CreateLogStream ?g ?s]"
    using create_or_get_log_stream_ok [OF g1, of ?s] by blast
  have "run_container_and_log self en w =
      (Inl (raised x), snd (run_container (Some x) (docker_runner self) w2))"
    using assms r1 r2 by (simp add: run_container_and_log_def run_container_def)
  moreover have "calls (snd (run_container (Some x) (docker_runner self) w2)) =
      calls w @ butlast (started self)"
    using c1 c2 by (simp add: run_container_def record_call_def started_def)
  ultimately show ?thesis by blast
qed

lemma log_loop_trace:
  "\<exists>ys. calls (snd (log_loop self en items w)) = calls w @ ys \<and> (\<forall>c\<in>set ys. after_start c)"
proof (induction items arbitrary: w)
  case Nil
  then show ?case by simp
next
  case (Cons i items)
  show ?case
  proof (cases i)
    case (Raise x)
    then show ?thesis by simp
  next
    case (Chunk b)
    show ?thesis
    proof (cases "utf8_decode b")
      case None
      with Chunk show ?thesis by simp
    next
      case (Some t)
      let ?g = "aws_cloudwatch_group self" and ?s = "aws_cloudwatch_stream self"
      show ?thesis
      proof (cases "put_fault en (puts w)")
        case None
        from send_ok [OF None, of ?g ?s "splitlines t"] obtain evs w1 where
          s1: "send_logs_to_cloudwatch en ?g ?s (splitlines t) w = (Inr (), w1)"
          and c1: "calls w1 = calls w @ [PutLogEvents ?g ?s evs]" by blast
        from Cons.IH [of w1] obtain ys where
          y: "calls (snd (log_loop self en items w1)) = calls w1 @ ys" "\<forall>c\<in>set ys. after_start c"
          by blast
        have "log_loop self en (i # items) w = log_loop self en items w1"
          using Chunk Some s1 by simp
        then have "calls (snd (log_loop self en (i # items) w)) = calls w @ (PutLogEvents ?g ?s evs # ys)"
          using y(1) c1 by simp
        moreover have "\<forall>c\<in>set (PutLogEvents ?g ?s evs # ys). after_start c" using y(2) by simp
        ultimately show ?thesis by blast
      next
        case (Some x)
        from send_fail [OF Some, of ?g ?s "splitlines t"] obtain evs w1 where
          s1: "send_logs_to_cloudwatch en ?g ?s (splitlines t) w =
                 (Inl (if x = NoCredentials then SystemExit 1 else raised x), w1)"
          and c1: "calls w1 = calls w @ PutLogEvents ?g ?s evs #
             (if x = NoCredentials then [Print (ascii ''AWS credentials are invalid.'')] else [])"
          by blast
        have "log_loop self en (i # items) w =
            (Inl (if x = NoCredentials then SystemExit 1 else raised x), w1)"
          using Chunk \<open>utf8_decode b = Some t\<close> s1 by simp
        then have "calls (snd (log_loop self en (i # items) w)) = calls w @ PutLogEvents ?g ?s evs #
             (if x = NoCredentials then [Print (ascii ''AWS credentials are invalid.'')] else [])"
          using c1 by simp
        moreover have "\<forall>c\<in>set (PutLogEvents ?g ?s evs #
             (if x = NoCredentials then [Print (ascii ''AWS credentials are invalid.'')] else [])).
             after_start c" by simp
        ultimately show ?thesis by blast
      qed
    qed
  qed
qed

lemma run_no_decode_error:
  assumes "\<forall>b. Chunk b \<in> set (feed en) \<longrightarrow> utf8_decode b \<noteq> None"
  shows "fst (run_container_and_log self en w) \<noteq> Inl UnicodeDecodeError"
proof (cases "group_fault en")
  case (Some x)
  from run_group_fault [OF Some, of self w] show ?thesis by (simp add: raised_not_decode)
next
  case None
  note g = None
  show ?thesis
  proof (cases "stream_fault en")
    case (Some x)
    from run_stream_fault [OF g Some, of self w] show ?thesis by (auto simp: raised_not_decode)
  next
    case None
    note s = None
    show ?thesis
    proof (cases "launch_fault en")
      case (Some x)
      from run_launch_fault [OF g s Some, of self w] show ?thesis by (auto simp: raised_not_decode)
    next
      case None
      from run_after_setup [OF g s None, of w self] obtain w3 where
        run: "run_container_and_log self en w =
             (case log_loop self en (feed en) w3 of
                (r4, w4) \<Rightarrow>
                  if r4 = Inl KeyboardInterrupt
                  then (Inr (), w4\<lparr>calls := calls w4 @ interrupted\<rparr>)
                  else (r4, w4))" by blast
      obtain r4 w4 where l: "log_loop self en (feed en) w3 = (r4, w4)"
        by (cases "log_loop self en (feed en) w3")
      have "r4 \<noteq> Inl UnicodeDecodeError"
        using log_loop_no_decode_error [OF assms, of self en w3] l by simp
      then show ?thesis using run l by simp
    qed
  qed
qed

lemma log_loop_first_chunk:
  assumes "utf8_decode c = Some t"
  shows "\<exists>evs ys. calls (snd (log_loop self en (Chunk c # rest) w)) =
           calls w @ PutLogEvents (aws_cloudwatch_group self) (aws_cloudwatch_stream self) evs # ys \<and>
         map message evs = splitlines t \<and>
         (put_fault en (puts w) = None \<longrightarrow>
            (\<exists>w1. calls w1 = calls w @
                    [PutLogEvents (aws_cloudwatch_group self) (aws_cloudwatch_stream self) evs] \<and>
                  log_loop self en (Chunk c # rest) w = log_loop self en rest w1))"
proof (cases "put_fault en (puts w)")
  case None
  let ?g = "aws_cloudwatch_group self" and ?s = "aws_cloudwatch_stream self"
  from send_ok [OF None, of ?g ?s "splitlines t"] obtain evs w1 where
    s1: "send_logs_to_cloudwatch en ?g ?s (splitlines t) w = (Inr (), w1)"
    and c1: "calls w1 = calls w @ [PutLogEvents ?g ?s evs]"
    and m1: "map message evs = splitlines t" by blast
  have l: "log_loop self en (Chunk c # rest) w = log_loop self en rest w1"
    using assms s1 by simp
  from log_loop_trace [of self en rest w1] obtain ys where
    "calls (snd (log_loop self en rest w1)) = calls w1 @ ys" by blast
  then have "calls (snd (log_loop self en (Chunk c # rest) w)) = calls w @ PutLogEvents ?g ?s evs # ys"
    using l c1 by simp
  with m1 c1 l show ?thesis by blast
next
  case (Some x)
  let ?g = "aws_cloudwatch_group self" and ?s = "aws_cloudwatch_stream self"
  from send_fail [OF Some, of ?g ?s "splitlines t"] obtain evs w1 where
    s1: "send_logs_to_cloudwatch en ?g ?s (splitlines t) w =
           (Inl (if x = NoCredentials then SystemExit 1 else raised x), w1)"
    and c1: "calls w1 = calls w @ PutLogEvents ?g ?s evs #
             (if x = NoCredentials then [Print (ascii ''AWS credentials are invalid.'')] else [])"
    and m1: "map message evs = splitlines t" by blast
  have "log_loop self en (Chunk c # rest) w =
      (Inl (if x = NoCredentials then SystemExit 1 else raised x), w1)"
    using assms s1 by simp
  then have "calls (snd (log_loop self en (Chunk c # rest) w)) = calls w @ PutLogEvents ?g ?s evs #
             (if x = NoCredentials then [Print (ascii ''AWS credentials are invalid.'')] else [])"
    using c1 by simp
  with m1 Some show ?thesis by auto
qed

lemma run_prefix_calls:
  assumes "calls w = []"
    and "group_fault en = None" and "stream_fault en = None" and "launch_fault en = None"
    and "feed en = map Chunk cs @ rest"
    and "map utf8_decode cs = map Some ts"
    and "\<forall>k<length cs. put_fault en k = None"
  shows "\<exists>evss w' zs.
           calls w' = started self @
             map (PutLogEvents (aws_cloudwatch_group self) (aws_cloudwatch_stream self)) evss \<and>
           map (map message) evss = map splitlines ts \<and>
           puts w' = length cs \<and>
           calls (snd (run_container_and_log self en w)) =
             calls (snd (log_loop self en rest w')) @ zs \<and>
           concat (map lines_of zs) = []"
proof -
  from run_prefix [OF assms, of self] obtain evss w' where
    c: "calls w' = started self @
             map (PutLogEvents (aws_cloudwatch_group self) (aws_cloudwatch_stream self)) evss"
    and m: "map (map message) evss = map splitlines ts"
    and p: "puts w' = length cs"
    and r: "run_container_and_log self en w =
             (case log_loop self en rest w' of
                (r4, w4) \<Rightarrow>
                  if r4 = Inl KeyboardInterrupt
                  then (Inr (), w4\<lparr>calls := calls w4 @ interrupted\<rparr>)
                  else (r4, w4))" by blast
  obtain r4 w4 where l: "log_loop self en rest w' = (r4, w4)"
    by (cases "log_loop self en rest w'")
  have "\<exists>zs. calls (snd (run_container_and_log self en w)) =
             calls (snd (log_loop self en rest w')) @ zs \<and> concat (map lines_of zs) = []"
  proof (cases "r4 = Inl KeyboardInterrupt")
    case True
    then have "calls (snd (run_container_and_log self en w)) =
        calls (snd (log_loop self en rest w')) @ interrupted" using r l by simp
    moreover have "concat (map lines_of interrupted) = []" by (simp add: interrupted_def)
    ultimately show ?thesis by blast
  next
    case False
    then have "calls (snd (run_container_and_log self en w)) =
        calls (snd (log_loop self en rest w')) @ []" using r l by simp
    then show ?thesis by force
  qed
  with c m p show ?thesis by blast
qed

section \<open>The claims\<close>

text \<open>
  Claim C1, as amended. In a run whose set-up succeeds, whose workload delivers the finite
  sequence of chunks \<open>cs\<close> and then exits, where every chunk is valid UTF-8 on its own
  (chunk \<open>i\<close> decodes to the text \<open>ts ! i\<close>) and no \<^verbatim>\<open>put_log_events\<close> call fails:
  the method returns normally; after the four set-up calls it makes exactly one
  \<^verbatim>\<open>put_log_events\<close> call per chunk, to the configured group and stream, in the
  order of the chunks, and the messages of the call for a chunk are that chunk's lines in
  order, so every line of every chunk is in exactly one append call and the order of the
  lines is kept within and across chunks. When every chunk ends at a line feed, these are
  the lines of the whole output.
\<close>

theorem forwarding_complete:
  assumes "calls w = []"
    and "group_fault en = None" and "stream_fault en = None" and "launch_fault en = None"
    and "feed en = map Chunk cs"
    and "map utf8_decode cs = map Some ts"
    and "\<forall>k. put_fault en k = None"
  shows "fst (run_container_and_log self en w) = Inr () \<and>
         (\<exists>evss. calls (snd (run_container_and_log self en w)) =
                    started self @
                    map (PutLogEvents (aws_cloudwatch_group self) (aws_cloudwatch_stream self)) evss \<and>
                  map (map message) evss = map splitlines ts) \<and>
         appends (snd (run_container_and_log self en w)) = map splitlines ts \<and>
         length (appends (snd (run_container_and_log self en w))) = length cs \<and>
         ((\<forall>t\<in>set ts. t = [] \<or> last t = 0x0A) \<longrightarrow>
            concat (appends (snd (run_container_and_log self en w))) = splitlines (concat ts))"
proof -
  let ?g = "aws_cloudwatch_group self" and ?s = "aws_cloudwatch_stream self"
  have pf: "\<forall>k<length cs. put_fault en k = None" using assms(7) by simp
  from run_all_chunks [OF assms(1-6) pf, of self] obtain evss w' where
    c: "calls w' = started self @ map (PutLogEvents ?g ?s) evss @ []"
    and m: "map (map message) evss = map splitlines ts"
    and r: "run_container_and_log self en w = (Inr (), w')" by auto
  have ap: "appends w' = map splitlines ts" using appends_shape [OF c] m by simp
  have "length (map utf8_decode cs) = length (map Some ts)" using assms(6) by simp
  then have len: "length ts = length cs" by simp
  show ?thesis using r c m ap len concat_splitlines_aligned [of ts] by auto
qed

text \<open>
  The two chunks \<^verbatim>\<open>"a\n"\<close> and \<^verbatim>\<open>"b\nc\n"\<close> give the two batches \<open>[a]\<close> and
  \<open>[b, c]\<close>; no chunk gives no batch.
\<close>

theorem forwarding_complete_witness:
  "fst (run_container_and_log demo
          (calm [Chunk (encode_ascii ''a\<newline>''), Chunk (encode_ascii ''b\<newline>c\<newline>'')]) fresh) = Inr () \<and>
   appends (snd (run_container_and_log demo
          (calm [Chunk (encode_ascii ''a\<newline>''), Chunk (encode_ascii ''b\<newline>c\<newline>'')]) fresh)) =
     [[ascii ''a''], [ascii ''b'', ascii ''c'']] \<and>
   concat (appends (snd (run_container_and_log demo
          (calm [Chunk (encode_ascii ''a\<newline>''), Chunk (encode_ascii ''b\<newline>c\<newline>'')]) fresh))) =
     splitlines (ascii ''a\<newline>b\<newline>c\<newline>'') \<and>
   appends (snd (run_container_and_log demo (calm []) fresh)) = []"
proof -
  let ?cs = "[encode_ascii ''a\<newline>'', encode_ascii ''b\<newline>c\<newline>'']"
  let ?ts = "[ascii ''a\<newline>'', ascii ''b\<newline>c\<newline>'']"
  have h1: "calls fresh = []" by (simp add: fresh_def)
  have h5: "feed (calm (map Chunk ?cs)) = map Chunk ?cs" by (simp add: calm_def)
  have h6: "map utf8_decode ?cs = map Some ?ts" by (simp add: text_defs)
  have h7: "\<forall>k. put_fault (calm (map Chunk ?cs)) k = None" by (simp add: calm_def)
  have al: "\<forall>t\<in>set ?ts. t = [] \<or> last t = 0x0A" by (simp add: ascii_def)
  have e5: "feed (calm []) = map Chunk []" by (simp add: calm_def)
  have e6: "map utf8_decode [] = map Some []" by simp
  have e7: "\<forall>k. put_fault (calm []) k = None" by (simp add: calm_def)
  have f: "group_fault (calm i) = None" "stream_fault (calm i) = None" "launch_fault (calm i) = None" for i
    by (simp_all add: calm_def)
  from forwarding_complete [OF h1 f h5 h6 h7, of demo] al
       forwarding_complete [OF h1 f e5 e6 e7, of demo]
  show ?thesis by (simp add: text_defs)
qed

text \<open>
  Without the condition on the chunks the claim fails: the workload prints the line
  \<^verbatim>\<open>a\<close> followed by U+00E9 and a line feed, four bytes in UTF-8, and the stream
  delivers them as two chunks of two bytes. The first chunk ends inside the two-byte
  character, decoding it raises \<^verbatim>\<open>UnicodeDecodeError\<close>, and no batch is appended
  for either chunk.
\<close>

theorem forwarding_complete_counterexample:
  "fst (run_container_and_log demo (calm [Chunk [0x61, 0xC3], Chunk [0xA9, 0x0A]]) fresh)
     = Inl UnicodeDecodeError \<and>
   appends (snd (run_container_and_log demo (calm [Chunk [0x61, 0xC3], Chunk [0xA9, 0x0A]]) fresh)) = [] \<and>
   length (appends (snd (run_container_and_log demo (calm [Chunk [0x61, 0xC3], Chunk [0xA9, 0x0A]]) fresh)))
     \<noteq> length [Chunk [0x61, 0xC3], Chunk [0xA9, 0x0A]]"
  by (simp add: run_defs text_defs demo_defs)

text \<open>
  Claim C2. \<^verbatim>\<open>create_or_get_log_group\<close> on a group that exists, and
  \<^verbatim>\<open>create_or_get_log_stream\<close> on a stream that exists, make their call and return
  normally, leaving the groups and streams as they were. Called twice with the same name
  and not rejected by the service for another reason, either returns normally both
  times and the second call adds no resource; for the stream this is in a group that
  exists. A rejection other than already-exists reaches the caller: a fault \<open>x\<close> of the
  service as \<open>raised x\<close>, and a stream asked for in a group that does not exist as
  \<^verbatim>\<open>ResourceNotFoundException\<close>.
\<close>

theorem ensure_idempotent:
  "(name \<in> set (groups w) \<longrightarrow>
      create_or_get_log_group None name w = (Inr (), record_call (CreateLogGroup name) w)) \<and>
   (g \<in> set (groups w) \<and> (g, name) \<in> set (streams w) \<longrightarrow>
      create_or_get_log_stream None g name w = (Inr (), record_call (CreateLogStream g name) w)) \<and>
   fst (create_or_get_log_group None name w) = Inr () \<and>
   fst (create_or_get_log_group None name (snd (create_or_get_log_group None name w))) = Inr () \<and>
   groups (snd (create_or_get_log_group None name (snd (create_or_get_log_group None name w)))) =
     groups (snd (create_or_get_log_group None name w)) \<and>
   (g \<in> set (groups w) \<longrightarrow>
      fst (create_or_get_log_stream None g name w) = Inr () \<and>
      fst (create_or_get_log_stream None g name (snd (create_or_get_log_stream None g name w))) = Inr () \<and>
      streams (snd (create_or_get_log_stream None g name (snd (create_or_get_log_stream None g name w)))) =
        streams (snd (create_or_get_log_stream None g name w))) \<and>
   fst (create_or_get_log_group (Some x) name w) = Inl (raised x) \<and>
   fst (create_or_get_log_stream (Some x) g name w) = Inl (raised x) \<and>
   (g \<notin> set (groups w) \<longrightarrow>
      fst (create_or_get_log_stream None g name w) = Inl ResourceNotFoundException)"
proof (intro conjI impI)
  assume "name \<in> set (groups w)"
  then show "create_or_get_log_group None name w = (Inr (), record_call (CreateLogGroup name) w)"
    by (simp add: create_or_get_log_group_def create_log_group_def record_call_def)
next
  assume "g \<in> set (groups w) \<and> (g, name) \<in> set (streams w)"
  then show "create_or_get_log_stream None g name w =
      (Inr (), record_call (CreateLogStream g name) w)"
    by (simp add: create_or_get_log_stream_def create_log_stream_def record_call_def)
next
  obtain w1 where r1: "create_or_get_log_group None name w = (Inr (), w1)"
    and g1: "name \<in> set (groups w1)"
    using create_or_get_log_group_ok [of name w] by blast
  obtain w2 where r2: "create_or_get_log_group None name w1 = (Inr (), w2)"
    and g2: "name \<in> set (groups w1) \<longrightarrow> groups w2 = groups w1"
    using create_or_get_log_group_ok [of name w1] by blast
  show "fst (create_or_get_log_group None name w) = Inr ()" using r1 by simp
  show "fst (create_or_get_log_group None name (snd (create_or_get_log_group None name w))) = Inr ()"
    using r1 r2 by simp
  show "groups (snd (create_or_get_log_group None name (snd (create_or_get_log_group None name w)))) =
     groups (snd (create_or_get_log_group None name w))"
    using r1 r2 g1 g2 by simp
next
  assume g: "g \<in> set (groups w)"
  obtain w1 where r1: "create_or_get_log_stream None g name w = (Inr (), w1)"
    and s1: "(g, name) \<in> set (streams w1)" and g1: "groups w1 = groups w"
    using create_or_get_log_stream_ok [OF g, of name] by blast
  have g': "g \<in> set (groups w1)" using g g1 by simp
  obtain w2 where r2: "create_or_get_log_stream None g name w1 = (Inr (), w2)"
    and s2: "(g, name) \<in> set (streams w1) \<longrightarrow> streams w2 = streams w1"
    using create_or_get_log_stream_ok [OF g', of name] by blast
  show "fst (create_or_get_log_stream None g name w) = Inr ()" using r1 by simp
  show "fst (create_or_get_log_stream None g name (snd (create_or_get_log_stream None g name w))) = Inr ()"
    using r1 r2 by simp
  show "streams (snd (create_or_get_log_stream None g name (snd (create_or_get_log_stream None g name w)))) =
        streams (snd (create_or_get_log_stream None g name w))"
    using r1 r2 s1 s2 by simp
next
  show "fst (create_or_get_log_group (Some x) name w) = Inl (raised x)"
    by (simp add: create_or_get_log_group_fault)
  show "fst (create_or_get_log_stream (Some x) g name w) = Inl (raised x)"
    by (simp add: create_or_get_log_stream_fault)
next
  assume "g \<notin> set (groups w)"
  then show "fst (create_or_get_log_stream None g name w) = Inl ResourceNotFoundException"
    by (simp add: create_or_get_log_stream_no_group)
qed

text \<open>
  The group \<open>x\<close> exists and is asked for again; the stream \<open>y\<close> of \<open>x\<close> exists and is
  asked for again; the stream \<open>y\<close> is asked for twice in the group \<open>x\<close>; the stream
  \<open>y\<close> is asked for where no group exists.
\<close>

theorem ensure_idempotent_witness:
  "create_or_get_log_group None (ascii ''x'') (fresh\<lparr>groups := [ascii ''x'']\<rparr>) =
     (Inr (), fresh\<lparr>groups := [ascii ''x''], calls := [CreateLogGroup (ascii ''x'')]\<rparr>) \<and>
   create_or_get_log_stream None (ascii ''x'') (ascii ''y'')
       (fresh\<lparr>groups := [ascii ''x''], streams := [(ascii ''x'', ascii ''y'')]\<rparr>) =
     (Inr (), fresh\<lparr>groups := [ascii ''x''], streams := [(ascii ''x'', ascii ''y'')],
                 calls := [CreateLogStream (ascii ''x'') (ascii ''y'')]\<rparr>) \<and>
   fst (create_or_get_log_stream None (ascii ''x'') (ascii ''y'') (fresh\<lparr>groups := [ascii ''x'']\<rparr>))
     = Inr () \<and>
   fst (create_or_get_log_stream None (ascii ''x'') (ascii ''y'')
          (snd (create_or_get_log_stream None (ascii ''x'') (ascii ''y'')
                  (fresh\<lparr>groups := [ascii ''x'']\<rparr>))))
     = Inr () \<and>
   fst (create_or_get_log_stream None (ascii ''x'') (ascii ''y'') fresh) = Inl ResourceNotFoundException"
proof -
  have a: "ascii ''x'' \<in> set (groups (fresh\<lparr>groups := [ascii ''x'']\<rparr>))" by simp
  have b: "ascii ''x'' \<in> set (groups (fresh\<lparr>groups := [ascii ''x''], streams := [(ascii ''x'', ascii ''y'')]\<rparr>))
      \<and> (ascii ''x'', ascii ''y'') \<in> set (streams (fresh\<lparr>groups := [ascii ''x''], streams := [(ascii ''x'', ascii ''y'')]\<rparr>))"
    by simp
  have c: "ascii ''x'' \<notin> set (groups fresh)" by (simp add: fresh_def)
  from ensure_idempotent [where name = "ascii ''x''" and w = "fresh\<lparr>groups := [ascii ''x'']\<rparr>"] a
  have 1: "create_or_get_log_group None (ascii ''x'') (fresh\<lparr>groups := [ascii ''x'']\<rparr>) =
     (Inr (), fresh\<lparr>groups := [ascii ''x''], calls := [CreateLogGroup (ascii ''x'')]\<rparr>)"
    by (simp add: record_call_def fresh_def)
  from ensure_idempotent [where w = "fresh\<lparr>groups := [ascii ''x''], streams := [(ascii ''x'', ascii ''y'')]\<rparr>"
      and g = "ascii ''x''" and name = "ascii ''y''"] b
  have 2: "create_or_get_log_stream None (ascii ''x'') (ascii ''y'')
       (fresh\<lparr>groups := [ascii ''x''], streams := [(ascii ''x'', ascii ''y'')]\<rparr>) =
     (Inr (), fresh\<lparr>groups := [ascii ''x''], streams := [(ascii ''x'', ascii ''y'')],
                 calls := [CreateLogStream (ascii ''x'') (ascii ''y'')]\<rparr>)"
    by (simp add: record_call_def fresh_def)
  from ensure_idempotent [where w = "fresh\<lparr>groups := [ascii ''x'']\<rparr>"
      and g = "ascii ''x''" and name = "ascii ''y''"] a
  have 3: "fst (create_or_get_log_stream None (ascii ''x'') (ascii ''y'') (fresh\<lparr>groups := [ascii ''x'']\<rparr>))
     = Inr () \<and>
   fst (create_or_get_log_stream None (ascii ''x'') (ascii ''y'')
          (snd (create_or_get_log_stream None (ascii ''x'') (ascii ''y'')
                  (fresh\<lparr>groups := [ascii ''x'']\<rparr>))))
     = Inr ()"
    by blast
  from ensure_idempotent [where w = fresh and g = "ascii ''x''" and name = "ascii ''y''"] c
  have 4: "fst (create_or_get_log_stream None (ascii ''x'') (ascii ''y'') fresh) = Inl ResourceNotFoundException"
    by simp
  from 1 2 3 4 show ?thesis by simp
qed

text \<open>
  Claim C3, as amended. In a run that has forwarded the chunks \<open>cs\<close>, when the
  \<^verbatim>\<open>put_log_events\<close> call for the next chunk fails with anything other than missing
  credentials or an interrupt, the exception leaves \<^verbatim>\<open>run_container_and_log\<close>
  uncaught and the process ends with status 1: the failing call is the last append call
  of the run (the chunks after it are never forwarded), and apart from the append calls
  the run has made its four set-up calls and nothing else, so nothing is printed by the
  program and the container is not stopped.
\<close>

theorem other_failure_aborts:
  assumes "calls w = []"
    and "group_fault en = None" and "stream_fault en = None" and "launch_fault en = None"
    and "feed en = map Chunk cs @ Chunk c # rest"
    and "map utf8_decode cs = map Some ts"
    and "\<forall>k<length cs. put_fault en k = None"
    and "utf8_decode c = Some t"
    and "put_fault en (length cs) = Some (Failure name)"
  shows "fst (run_container_and_log self en w) = Inl (OtherException name) \<and>
         exit_status (fst (run_container_and_log self en w)) = 1 \<and>
         appends (snd (run_container_and_log self en w)) = map splitlines ts @ [splitlines t] \<and>
         others (snd (run_container_and_log self en w)) = started self"
proof -
  let ?g = "aws_cloudwatch_group self" and ?s = "aws_cloudwatch_stream self"
  from run_put_fault [OF assms, of self] obtain evss evs w' where
    c: "calls w' = started self @ map (PutLogEvents ?g ?s) evss @ [PutLogEvents ?g ?s evs]"
    and m: "map (map message) evss = map splitlines ts"
    and m2: "map message evs = splitlines t"
    and r: "run_container_and_log self en w = (Inl (OtherException name), w')"
    by auto
  have a: "appends w' = map splitlines ts @ [splitlines t]"
    using appends_shape [OF c] m m2 by simp
  have o: "others w' = started self"
    using others_shape [OF c] by simp
  show ?thesis using r a o by simp
qed

text \<open>
  Three chunks, the second append is throttled: the run ends with that exception after
  the batches \<open>[a]\<close> and \<open>[b]\<close>.
\<close>

theorem other_failure_aborts_witness:
  "fst (run_container_and_log demo
          (faulty 1 (Failure (ascii ''ThrottlingException''))
             [Chunk (encode_ascii ''a\<newline>''), Chunk (encode_ascii ''b\<newline>''),
              Chunk (encode_ascii ''c\<newline>'')]) fresh)
     = Inl (OtherException (ascii ''ThrottlingException'')) \<and>
   appends (snd (run_container_and_log demo
          (faulty 1 (Failure (ascii ''ThrottlingException''))
             [Chunk (encode_ascii ''a\<newline>''), Chunk (encode_ascii ''b\<newline>''),
              Chunk (encode_ascii ''c\<newline>'')]) fresh))
     = [[ascii ''a''], [ascii ''b'']]"
proof -
  let ?en = "faulty 1 (Failure (ascii ''ThrottlingException''))
             [Chunk (encode_ascii ''a\<newline>''), Chunk (encode_ascii ''b\<newline>''),
              Chunk (encode_ascii ''c\<newline>'')]"
  have h1: "calls fresh = []" by (simp add: fresh_def)
  have h2: "group_fault ?en = None" "stream_fault ?en = None" "launch_fault ?en = None"
    by (simp_all add: demo_defs)
  have h5: "feed ?en = map Chunk [encode_ascii ''a\<newline>''] @ Chunk (encode_ascii ''b\<newline>'')
              # [Chunk (encode_ascii ''c\<newline>'')]"
    by (simp add: demo_defs)
  have h6: "map utf8_decode [encode_ascii ''a\<newline>''] = map Some [ascii ''a\<newline>'']"
    by (simp add: text_defs)
  have h7: "\<forall>k<length [encode_ascii ''a\<newline>'']. put_fault ?en k = None"
    by (simp add: demo_defs)
  have h8: "utf8_decode (encode_ascii ''b\<newline>'') = Some (ascii ''b\<newline>'')"
    by (simp add: text_defs)
  have h9: "put_fault ?en (length [encode_ascii ''a\<newline>'']) = Some (Failure (ascii ''ThrottlingException''))"
    by (simp add: demo_defs)
  from other_failure_aborts [OF h1 h2 h5 h6 h7 h8 h9, of demo]
  show ?thesis by (simp add: text_defs)
qed

text \<open>
  The claim as stated fails: the chunks \<^verbatim>\<open>"a\n"\<close> and \<^verbatim>\<open>"b\n"\<close> are delivered and
  the first append is throttled. The run does not return normally, the only append call
  is the one for \<open>[a]\<close>, the batch \<open>[b]\<close> of the next chunk is never appended, and
  nothing is printed.
\<close>

theorem other_failure_aborts_counterexample:
  "fst (run_container_and_log demo
          (faulty 0 (Failure (ascii ''ThrottlingException''))
             [Chunk (encode_ascii ''a\<newline>''), Chunk (encode_ascii ''b\<newline>'')]) fresh)
     \<noteq> Inr () \<and>
   appends (snd (run_container_and_log demo
          (faulty 0 (Failure (ascii ''ThrottlingException''))
             [Chunk (encode_ascii ''a\<newline>''), Chunk (encode_ascii ''b\<newline>'')]) fresh))
     = [[ascii ''a'']] \<and>
   [ascii ''b''] \<notin> set (appends (snd (run_container_and_log demo
          (faulty 0 (Failure (ascii ''ThrottlingException''))
             [Chunk (encode_ascii ''a\<newline>''), Chunk (encode_ascii ''b\<newline>'')]) fresh))) \<and>
   others (snd (run_container_and_log demo
          (faulty 0 (Failure (ascii ''ThrottlingException''))
             [Chunk (encode_ascii ''a\<newline>''), Chunk (encode_ascii ''b\<newline>'')]) fresh))
     = started demo"
  by (simp add: run_defs text_defs demo_defs)

text \<open>
  Claim C4. In a run that has forwarded the chunks \<open>cs\<close>, when the
  \<^verbatim>\<open>put_log_events\<close> call for the next chunk fails and the failure is not a user
  interrupt, the process ends with a status other than 0 and the failing call is the last
  append call of the run. When the failure is \<^verbatim>\<open>NoCredentialsError\<close>, the one the
  source treats as rejected credentials, the run ends with \<^verbatim>\<open>exit(1)\<close> and the last
  calls are the failing append and the message about the credentials.
\<close>

theorem auth_error_fatal:
  assumes "calls w = []"
    and "group_fault en = None" and "stream_fault en = None" and "launch_fault en = None"
    and "feed en = map Chunk cs @ Chunk c # rest"
    and "map utf8_decode cs = map Some ts"
    and "\<forall>k<length cs. put_fault en k = None"
    and "utf8_decode c = Some t"
    and "put_fault en (length cs) = Some x"
    and "x \<noteq> Interrupt"
  shows "exit_status (fst (run_container_and_log self en w)) \<noteq> 0 \<and>
         appends (snd (run_container_and_log self en w)) = map splitlines ts @ [splitlines t] \<and>
         (x = NoCredentials \<longrightarrow>
            fst (run_container_and_log self en w) = Inl (SystemExit 1) \<and>
            (\<exists>evss evs. calls (snd (run_container_and_log self en w)) =
               started self @
               map (PutLogEvents (aws_cloudwatch_group self) (aws_cloudwatch_stream self)) evss @
               [PutLogEvents (aws_cloudwatch_group self) (aws_cloudwatch_stream self) evs,
                Print (ascii ''AWS credentials are invalid.'')] \<and>
               map (map message) evss = map splitlines ts \<and> map message evs = splitlines t))"
proof -
  let ?g = "aws_cloudwatch_group self" and ?s = "aws_cloudwatch_stream self"
  let ?run = "run_container_and_log self en w"
  from run_put_fault [OF assms(1-9), of self] assms(10) obtain evss evs w' where
    c: "calls w' = started self @ map (PutLogEvents ?g ?s) evss @
          PutLogEvents ?g ?s evs #
          (if x = NoCredentials then [Print (ascii ''AWS credentials are invalid.'')] else [])"
    and m: "map (map message) evss = map splitlines ts"
    and m2: "map message evs = splitlines t"
    and r: "?run = (Inl (if x = NoCredentials then SystemExit 1 else raised x), w')"
    by auto
  have e: "exit_status (fst ?run) \<noteq> 0" using r assms(10) by (cases x) simp_all
  have a: "appends (snd ?run) = map splitlines ts @ [splitlines t]"
    using appends_shape [OF c] m m2 r by simp
  have n: "x = NoCredentials \<longrightarrow>
            fst ?run = Inl (SystemExit 1) \<and>
            (\<exists>evss evs. calls (snd ?run) =
               started self @ map (PutLogEvents ?g ?s) evss @
               [PutLogEvents ?g ?s evs, Print (ascii ''AWS credentials are invalid.'')] \<and>
               map (map message) evss = map splitlines ts \<and> map message evs = splitlines t)"
    using r c m m2 by auto
  from e a n show ?thesis by blast
qed

text \<open>
  Three chunks, the second append misses its credentials: \<^verbatim>\<open>SystemExit(1)\<close> after the
  batches \<open>[a]\<close> and \<open>[b]\<close>; the chunk \<^verbatim>\<open>"c\n"\<close> is not forwarded.
\<close>

theorem auth_error_fatal_witness:
  "fst (run_container_and_log demo
          (faulty 1 NoCredentials
             [Chunk (encode_ascii ''a\<newline>''), Chunk (encode_ascii ''b\<newline>''),
              Chunk (encode_ascii ''c\<newline>'')]) fresh)
     = Inl (SystemExit 1) \<and>
   exit_status (fst (run_container_and_log demo
          (faulty 1 NoCredentials
             [Chunk (encode_ascii ''a\<newline>''), Chunk (encode_ascii ''b\<newline>''),
              Chunk (encode_ascii ''c\<newline>'')]) fresh))
     \<noteq> 0 \<and>
   appends (snd (run_container_and_log demo
          (faulty 1 NoCredentials
             [Chunk (encode_ascii ''a\<newline>''), Chunk (encode_ascii ''b\<newline>''),
              Chunk (encode_ascii ''c\<newline>'')]) fresh))
     = [[ascii ''a''], [ascii ''b'']]"
proof -
  let ?en = "faulty 1 NoCredentials
             [Chunk (encode_ascii ''a\<newline>''), Chunk (encode_ascii ''b\<newline>''),
              Chunk (encode_ascii ''c\<newline>'')]"
  have h1: "calls fresh = []" by (simp add: fresh_def)
  have h2: "group_fault ?en = None" "stream_fault ?en = None" "launch_fault ?en = None"
    by (simp_all add: demo_defs)
  have h5: "feed ?en = map Chunk [encode_ascii ''a\<newline>''] @ Chunk (encode_ascii ''b\<newline>'')
              # [Chunk (encode_ascii ''c\<newline>'')]"
    by (simp add: demo_defs)
  have h6: "map utf8_decode [encode_ascii ''a\<newline>''] = map Some [ascii ''a\<newline>'']"
    by (simp add: text_defs)
  have h7: "\<forall>k<length [encode_ascii ''a\<newline>'']. put_fault ?en k = None"
    by (simp add: demo_defs)
  have h8: "utf8_decode (encode_ascii ''b\<newline>'') = Some (ascii ''b\<newline>'')"
    by (simp add: text_defs)
  have h9: "put_fault ?en (length [encode_ascii ''a\<newline>'']) = Some NoCredentials"
    by (simp add: demo_defs)
  have h10: "NoCredentials \<noteq> Interrupt" by simp
  from auth_error_fatal [OF h1 h2 h5 h6 h7 h8 h9 h10, where self = demo]
  show ?thesis by (simp add: text_defs)
qed

text \<open>
  Claim C5. In a run that has forwarded the chunks \<open>cs\<close>, when
  \<^verbatim>\<open>KeyboardInterrupt\<close> is raised, either while the loop waits for the next chunk or
  inside the \<^verbatim>\<open>put_log_events\<close> call for the next chunk, the notice is printed,
  \<^verbatim>\<open>container.stop()\<close> is called, these two are the last calls of the run (no append
  call follows the interrupt, and whatever the stream still holds is dropped), the method
  returns normally and the status of the process is 0.
\<close>

theorem interrupt_stops_container:
  assumes "calls w = []"
    and "group_fault en = None" and "stream_fault en = None" and "launch_fault en = None"
    and "map utf8_decode cs = map Some ts"
    and "\<forall>k<length cs. put_fault en k = None"
  shows "(feed en = map Chunk cs @ Raise Interrupt # rest \<longrightarrow>
            fst (run_container_and_log self en w) = Inr () \<and>
            exit_status (fst (run_container_and_log self en w)) = 0 \<and>
            (\<exists>evss. calls (snd (run_container_and_log self en w)) =
               started self @
               map (PutLogEvents (aws_cloudwatch_group self) (aws_cloudwatch_stream self)) evss @
               [Print (ascii ''Interrupted. Stopping the container...''), ContainerStop] \<and>
               map (map message) evss = map splitlines ts) \<and>
            appends (snd (run_container_and_log self en w)) = map splitlines ts) \<and>
         (feed en = map Chunk cs @ Chunk c # rest \<and> utf8_decode c = Some t \<and>
          put_fault en (length cs) = Some Interrupt \<longrightarrow>
            fst (run_container_and_log self en w) = Inr () \<and>
            exit_status (fst (run_container_and_log self en w)) = 0 \<and>
            (\<exists>evss evs. calls (snd (run_container_and_log self en w)) =
               started self @
               map (PutLogEvents (aws_cloudwatch_group self) (aws_cloudwatch_stream self)) evss @
               [PutLogEvents (aws_cloudwatch_group self) (aws_cloudwatch_stream self) evs,
                Print (ascii ''Interrupted. Stopping the container...''), ContainerStop] \<and>
               map (map message) evss = map splitlines ts \<and> map message evs = splitlines t) \<and>
            appends (snd (run_container_and_log self en w)) = map splitlines ts @ [splitlines t])"
proof (intro conjI impI)
  let ?g = "aws_cloudwatch_group self" and ?s = "aws_cloudwatch_stream self"
  let ?run = "run_container_and_log self en w"
  assume f: "feed en = map Chunk cs @ Raise Interrupt # rest"
  from run_raise [OF assms(1-4) f assms(5,6), of self] obtain evss w' where
    c: "calls w' = started self @ map (PutLogEvents ?g ?s) evss"
    and m: "map (map message) evss = map splitlines ts"
    and r: "?run = (Inr (), w'\<lparr>calls := calls w' @ interrupted\<rparr>)" by auto
  have cw: "calls (snd ?run) = started self @ map (PutLogEvents ?g ?s) evss @
      [Print (ascii ''Interrupted. Stopping the container...''), ContainerStop]"
    using r c by (simp add: interrupted_def)
  show "fst ?run = Inr ()" using r by simp
  show "exit_status (fst ?run) = 0" using r by simp
  show "\<exists>evss. calls (snd ?run) = started self @ map (PutLogEvents ?g ?s) evss @
               [Print (ascii ''Interrupted. Stopping the container...''), ContainerStop] \<and>
               map (map message) evss = map splitlines ts"
    using cw m by blast
  show "appends (snd ?run) = map splitlines ts"
    using appends_shape [OF cw] m by simp
next
  let ?g = "aws_cloudwatch_group self" and ?s = "aws_cloudwatch_stream self"
  let ?run = "run_container_and_log self en w"
  assume h: "feed en = map Chunk cs @ Chunk c # rest \<and> utf8_decode c = Some t \<and>
          put_fault en (length cs) = Some Interrupt"
  then have f: "feed en = map Chunk cs @ Chunk c # rest" and d: "utf8_decode c = Some t"
    and p: "put_fault en (length cs) = Some Interrupt" by simp_all
  from run_put_fault [OF assms(1-4) f assms(5,6) d p, of self] obtain evss evs w' where
    c: "calls w' = started self @ map (PutLogEvents ?g ?s) evss @ [PutLogEvents ?g ?s evs]"
    and m: "map (map message) evss = map splitlines ts"
    and m2: "map message evs = splitlines t"
    and r: "?run = (Inr (), w'\<lparr>calls := calls w' @ interrupted\<rparr>)" by auto
  have cw: "calls (snd ?run) = started self @ map (PutLogEvents ?g ?s) evss @
      [PutLogEvents ?g ?s evs, Print (ascii ''Interrupted. Stopping the container...''), ContainerStop]"
    using r c by (simp add: interrupted_def)
  show "fst ?run = Inr ()" using r by simp
  show "exit_status (fst ?run) = 0" using r by simp
  show "\<exists>evss evs. calls (snd ?run) = started self @ map (PutLogEvents ?g ?s) evss @
               [PutLogEvents ?g ?s evs,
                Print (ascii ''Interrupted. Stopping the container...''), ContainerStop] \<and>
               map (map message) evss = map splitlines ts \<and> map message evs = splitlines t"
    using cw m m2 by blast
  show "appends (snd ?run) = map splitlines ts @ [splitlines t]"
    using appends_shape [OF cw] m m2 by simp
qed

text \<open>
  An interrupt after the first of two chunks, and an interrupt inside the second of three
  append calls.
\<close>

theorem interrupt_stops_container_witness:
  "fst (run_container_and_log demo
          (calm [Chunk (encode_ascii ''a\<newline>''), Raise Interrupt, Chunk (encode_ascii ''b\<newline>'')])
          fresh) = Inr () \<and>
   appends (snd (run_container_and_log demo
          (calm [Chunk (encode_ascii ''a\<newline>''), Raise Interrupt, Chunk (encode_ascii ''b\<newline>'')])
          fresh)) = [[ascii ''a'']] \<and>
   fst (run_container_and_log demo
          (faulty 1 Interrupt
             [Chunk (encode_ascii ''a\<newline>''), Chunk (encode_ascii ''b\<newline>''),
              Chunk (encode_ascii ''c\<newline>'')])
          fresh) = Inr () \<and>
   appends (snd (run_container_and_log demo
          (faulty 1 Interrupt
             [Chunk (encode_ascii ''a\<newline>''), Chunk (encode_ascii ''b\<newline>''),
              Chunk (encode_ascii ''c\<newline>'')])
          fresh)) = [[ascii ''a''], [ascii ''b'']]"
proof -
  let ?e1 = "calm [Chunk (encode_ascii ''a\<newline>''), Raise Interrupt, Chunk (encode_ascii ''b\<newline>'')]"
  let ?e2 = "faulty 1 Interrupt
             [Chunk (encode_ascii ''a\<newline>''), Chunk (encode_ascii ''b\<newline>''),
              Chunk (encode_ascii ''c\<newline>'')]"
  have h1: "calls fresh = []" by (simp add: fresh_def)
  have a2: "group_fault ?e1 = None" "stream_fault ?e1 = None" "launch_fault ?e1 = None"
    by (simp_all add: demo_defs)
  have b2: "group_fault ?e2 = None" "stream_fault ?e2 = None" "launch_fault ?e2 = None"
    by (simp_all add: demo_defs)
  have h5: "map utf8_decode [encode_ascii ''a\<newline>''] = map Some [ascii ''a\<newline>'']"
    by (simp add: text_defs)
  have a6: "\<forall>k<length [encode_ascii ''a\<newline>'']. put_fault ?e1 k = None" by (simp add: demo_defs)
  have b6: "\<forall>k<length [encode_ascii ''a\<newline>'']. put_fault ?e2 k = None" by (simp add: demo_defs)
  have af: "feed ?e1 = map Chunk [encode_ascii ''a\<newline>''] @ Raise Interrupt
              # [Chunk (encode_ascii ''b\<newline>'')]"
    by (simp add: demo_defs)
  have bf: "feed ?e2 = map Chunk [encode_ascii ''a\<newline>''] @ Chunk (encode_ascii ''b\<newline>'')
              # [Chunk (encode_ascii ''c\<newline>'')] \<and>
            utf8_decode (encode_ascii ''b\<newline>'') = Some (ascii ''b\<newline>'') \<and>
            put_fault ?e2 (length [encode_ascii ''a\<newline>'']) = Some Interrupt"
    by (simp add: demo_defs text_defs)
  from interrupt_stops_container [OF h1 a2 h5 a6,
      where rest = "[Chunk (encode_ascii ''b\<newline>'')]" and self = demo] af
  have 1: "fst (run_container_and_log demo ?e1 fresh) = Inr () \<and>
           appends (snd (run_container_and_log demo ?e1 fresh)) = map splitlines [ascii ''a\<newline>'']"
    by blast
  from interrupt_stops_container [OF h1 b2 h5 b6,
      where c = "encode_ascii ''b\<newline>''" and rest = "[Chunk (encode_ascii ''c\<newline>'')]"
      and t = "ascii ''b\<newline>''" and self = demo] bf
  have 2: "fst (run_container_and_log demo ?e2 fresh) = Inr () \<and>
           appends (snd (run_container_and_log demo ?e2 fresh)) =
             map splitlines [ascii ''a\<newline>''] @ [splitlines (ascii ''b\<newline>'')]"
    by blast
  from 1 2 show ?thesis by (simp add: text_defs)
qed

text \<open>
  Claim C6. In a run that has forwarded the chunks \<open>cs\<close>, a next chunk that decodes and
  whose text ends with a non-empty part \<open>s1\<close> after its last line boundary has \<open>s1\<close>
  as the last event of its own append call, whatever follows: the partial line is
  forwarded as a line. When that append succeeds and the chunk after it decodes and
  begins with the rest \<open>s2\<close> of the line and a line feed, \<open>s2\<close> is the first event of
  the next append call, so the line \<open>s1 @ s2\<close> is forwarded as two events.
\<close>

theorem partial_line_forwarded:
  assumes "calls w = []"
    and "group_fault en = None" and "stream_fault en = None" and "launch_fault en = None"
    and "feed en = map Chunk cs @ Chunk c1 # rest"
    and "map utf8_decode cs = map Some ts"
    and "\<forall>k<length cs. put_fault en k = None"
    and "utf8_decode c1 = Some (p @ s1)"
    and "p = [] \<or> is_linebreak (last p)"
    and "s1 \<noteq> []"
    and "\<forall>x\<in>set s1. \<not> is_linebreak x"
  shows "(\<exists>later. appends (snd (run_container_and_log self en w)) =
            map splitlines ts @ [splitlines p @ [s1]] @ later) \<and>
         (\<forall>c2 rest' s2 q.
            rest = Chunk c2 # rest' \<and> put_fault en (length cs) = None \<and>
            utf8_decode c2 = Some (s2 @ 0x0A # q) \<and> (\<forall>x\<in>set s2. \<not> is_linebreak x) \<longrightarrow>
            (\<exists>later. appends (snd (run_container_and_log self en w)) =
               map splitlines ts @ [splitlines p @ [s1], s2 # splitlines q] @ later))"
proof -
  let ?g = "aws_cloudwatch_group self" and ?s = "aws_cloudwatch_stream self"
  let ?run = "run_container_and_log self en w"
  from run_prefix_calls [OF assms(1-7), of self] obtain evss w' zs where
    c: "calls w' = started self @ map (PutLogEvents ?g ?s) evss"
    and m: "map (map message) evss = map splitlines ts"
    and pw: "puts w' = length cs"
    and r: "calls (snd ?run) = calls (snd (log_loop self en (Chunk c1 # rest) w')) @ zs"
    and z: "concat (map lines_of zs) = []" by blast
  from log_loop_first_chunk [OF assms(8), of self en rest w'] obtain evs ys where
    l: "calls (snd (log_loop self en (Chunk c1 # rest) w')) = calls w' @ PutLogEvents ?g ?s evs # ys"
    and m1: "map message evs = splitlines (p @ s1)"
    and n: "put_fault en (puts w') = None \<longrightarrow>
            (\<exists>w1. calls w1 = calls w' @ [PutLogEvents ?g ?s evs] \<and>
                  log_loop self en (Chunk c1 # rest) w' = log_loop self en rest w1)"
    by (elim exE conjE) auto
  have l1: "splitlines (p @ s1) = splitlines p @ [s1]"
    by (rule splitlines_partial [OF assms(9-11)])
  have cr: "calls (snd ?run) =
      started self @ map (PutLogEvents ?g ?s) evss @ (PutLogEvents ?g ?s evs # ys @ zs)"
    using r l c by simp
  have one: "appends (snd ?run) =
      map splitlines ts @ [splitlines p @ [s1]] @ concat (map lines_of ys)"
    using appends_shape [OF cr] m m1 l1 z by simp
  have two: "\<exists>later. appends (snd ?run) =
               map splitlines ts @ [splitlines p @ [s1], s2 # splitlines q] @ later"
    if h: "rest = Chunk c2 # rest' \<and> put_fault en (length cs) = None \<and>
            utf8_decode c2 = Some (s2 @ 0x0A # q) \<and> (\<forall>x\<in>set s2. \<not> is_linebreak x)"
    for c2 rest' s2 q
  proof -
    from h have rest: "rest = Chunk c2 # rest'" and pf: "put_fault en (puts w') = None"
      and d2: "utf8_decode c2 = Some (s2 @ 0x0A # q)" and nb: "\<forall>x\<in>set s2. \<not> is_linebreak x"
      using pw by simp_all
    from n pf obtain w1 where c1: "calls w1 = calls w' @ [PutLogEvents ?g ?s evs]"
      and l': "log_loop self en (Chunk c1 # rest) w' = log_loop self en rest w1" by blast
    from log_loop_first_chunk [OF d2, of self en rest' w1] obtain evs2 ys2 where
      l2: "calls (snd (log_loop self en (Chunk c2 # rest') w1)) = calls w1 @ PutLogEvents ?g ?s evs2 # ys2"
      and m2: "map message evs2 = splitlines (s2 @ 0x0A # q)" by blast
    have lf: "is_linebreak 0x0A" by (simp add: is_linebreak_def)
    have s2: "splitlines (s2 @ 0x0A # q) = s2 # splitlines q"
      using splitlines_at_break [OF nb lf, of q] by simp
    have cr2: "calls (snd ?run) = started self @ map (PutLogEvents ?g ?s) evss @
        (PutLogEvents ?g ?s evs # PutLogEvents ?g ?s evs2 # ys2 @ zs)"
      using r l' rest l2 c1 c by simp
    have "appends (snd ?run) =
        map splitlines ts @ [splitlines p @ [s1], s2 # splitlines q] @ concat (map lines_of ys2)"
      using appends_shape [OF cr2] m m1 l1 m2 s2 z by simp
    then show ?thesis by blast
  qed
  from one two show ?thesis by blast
qed

text \<open>
  The line \<^verbatim>\<open>hello\<close>, cut after \<^verbatim>\<open>hel\<close>, arrives as the events \<^verbatim>\<open>hel\<close> and
  \<^verbatim>\<open>lo\<close> of two batches.
\<close>

theorem partial_line_forwarded_witness:
  "appends (snd (run_container_and_log demo
          (calm [Chunk (encode_ascii ''x\<newline>hel''), Chunk (encode_ascii ''lo\<newline>y'')]) fresh)) =
     [[ascii ''x'', ascii ''hel''], [ascii ''lo'', ascii ''y'']]"
proof -
  let ?en = "calm [Chunk (encode_ascii ''x\<newline>hel''), Chunk (encode_ascii ''lo\<newline>y'')]"
  let ?run = "run_container_and_log demo ?en fresh"
  have h1: "calls fresh = []" by (simp add: fresh_def)
  have h2: "group_fault ?en = None" "stream_fault ?en = None" "launch_fault ?en = None"
    by (simp_all add: demo_defs)
  have h5: "feed ?en = map Chunk [] @ Chunk (encode_ascii ''x\<newline>hel'')
      # [Chunk (encode_ascii ''lo\<newline>y'')]"
    by (simp add: demo_defs)
  have h6: "map utf8_decode [] = map Some []" by simp
  have h7: "\<forall>k<length ([] :: bytes list). put_fault ?en k = None" by simp
  have h8: "utf8_decode (encode_ascii ''x\<newline>hel'') = Some (ascii ''x\<newline>'' @ ascii ''hel'')"
    by (simp add: text_defs)
  have h9: "ascii ''x\<newline>'' = [] \<or> is_linebreak (last (ascii ''x\<newline>''))"
    by (simp add: text_defs)
  have h10: "ascii ''hel'' \<noteq> []" by (simp add: ascii_def)
  have h11: "\<forall>x\<in>set (ascii ''hel''). \<not> is_linebreak x" by (simp add: text_defs)
  have h12: "[Chunk (encode_ascii ''lo\<newline>y'')] = Chunk (encode_ascii ''lo\<newline>y'') # [] \<and>
      put_fault ?en (length ([] :: bytes list)) = None \<and>
      utf8_decode (encode_ascii ''lo\<newline>y'') = Some (ascii ''lo'' @ 0x0A # ascii ''y'') \<and>
      (\<forall>x\<in>set (ascii ''lo''). \<not> is_linebreak x)"
    by (simp add: demo_defs text_defs)
  from partial_line_forwarded [OF h1 h2 h5 h6 h7 h8 h9 h10 h11, where self = demo] h12
  obtain later where "appends (snd ?run) =
      map splitlines [] @ [splitlines (ascii ''x\<newline>'') @ [ascii ''hel''],
        ascii ''lo'' # splitlines (ascii ''y'')] @ later"
    by blast
  moreover have "length (appends (snd ?run)) = 2"
    by (simp add: run_defs text_defs demo_defs)
  ultimately show ?thesis by (simp add: text_defs)
qed

text \<open>
  Claim C7. The calls of a run, from a process that has made none, are one of four
  sequences. When creating the group is rejected, that call alone. When the group call
  completes and creating the stream is rejected, these two calls. When both complete and
  the container cannot be started, the group, the stream and \<^verbatim>\<open>containers.run\<close>.
  Otherwise the group, the stream, \<^verbatim>\<open>containers.run\<close> and \<^verbatim>\<open>container.logs\<close>,
  followed only by append calls, printed messages and \<^verbatim>\<open>container.stop()\<close>. So the
  group is created first, the stream second, the workload is started and its stream
  obtained only after both have completed, and no append comes before them.
\<close>

theorem setup_order:
  assumes "calls w = []"
  shows "(group_fault en \<noteq> None \<and>
            calls (snd (run_container_and_log self en w)) =
              [CreateLogGroup (aws_cloudwatch_group self)]) \<or>
         (group_fault en = None \<and> stream_fault en \<noteq> None \<and>
            calls (snd (run_container_and_log self en w)) =
              [CreateLogGroup (aws_cloudwatch_group self),
               CreateLogStream (aws_cloudwatch_group self) (aws_cloudwatch_stream self)]) \<or>
         (group_fault en = None \<and> stream_fault en = None \<and> launch_fault en \<noteq> None \<and>
            calls (snd (run_container_and_log self en w)) =
              [CreateLogGroup (aws_cloudwatch_group self),
               CreateLogStream (aws_cloudwatch_group self) (aws_cloudwatch_stream self),
               ContainersRun (docker_image (docker_runner self))
                 [ascii ''bash'', ascii ''-c'',
                  ascii ''python -u -c '' @ apostrophe @ bash_command (docker_runner self)
                    @ apostrophe]
                 True True True]) \<or>
         (group_fault en = None \<and> stream_fault en = None \<and> launch_fault en = None \<and>
            (\<exists>ys. calls (snd (run_container_and_log self en w)) = started self @ ys \<and>
                  (\<forall>c\<in>set ys. after_start c)))"
proof (cases "group_fault en")
  case (Some x)
  from run_group_fault [OF Some, of self w] assms show ?thesis
    using Some by (simp add: record_call_def)
next
  case None
  note g = None
  show ?thesis
  proof (cases "stream_fault en")
    case (Some x)
    from run_stream_fault [OF g Some, of self w] assms show ?thesis using g Some by auto
  next
    case None
    note s = None
    show ?thesis
    proof (cases "launch_fault en")
      case (Some x)
      from run_launch_fault [OF g s Some, of self w] assms show ?thesis using g s Some
        by (auto simp: started_def)
    next
      case None
      from run_after_setup [OF g s None, of w self] assms obtain w3 where
        c3: "calls w3 = started self" and
        run: "run_container_and_log self en w =
             (case log_loop self en (feed en) w3 of
                (r4, w4) \<Rightarrow>
                  if r4 = Inl KeyboardInterrupt
                  then (Inr (), w4\<lparr>calls := calls w4 @ interrupted\<rparr>)
                  else (r4, w4))" by auto
      obtain r4 w4 where l: "log_loop self en (feed en) w3 = (r4, w4)"
        by (cases "log_loop self en (feed en) w3")
      from log_loop_trace [of self en "feed en" w3] l c3 obtain ys where
        y: "calls w4 = started self @ ys" "\<forall>c\<in>set ys. after_start c" by auto
      have "\<exists>zs. calls (snd (run_container_and_log self en w)) = started self @ zs \<and>
                  (\<forall>c\<in>set zs. after_start c)"
      proof (cases "r4 = Inl KeyboardInterrupt")
        case True
        then have "calls (snd (run_container_and_log self en w)) = started self @ (ys @ interrupted)"
          using run l y(1) by simp
        moreover have "\<forall>c\<in>set (ys @ interrupted). after_start c"
          using y(2) by (auto simp: interrupted_def)
        ultimately show ?thesis by blast
      next
        case False
        then have "calls (snd (run_container_and_log self en w)) = started self @ ys"
          using run l y(1) by simp
        with y(2) show ?thesis by blast
      qed
      then show ?thesis using g s None by simp
    qed
  qed
qed

text \<open>A run without faults over one chunk: the four set-up calls and one append call.\<close>

theorem setup_order_witness:
  "\<exists>ys. calls (snd (run_container_and_log demo (calm [Chunk (encode_ascii ''a\<newline>'')]) fresh)) =
          started demo @ ys \<and> length ys = 1 \<and> list_all after_start ys"
proof -
  have h1: "calls fresh = []" by (simp add: fresh_def)
  from setup_order [OF h1, where en = "calm [Chunk (encode_ascii ''a\<newline>'')]" and self = demo]
  obtain ys where "calls (snd (run_container_and_log demo (calm [Chunk (encode_ascii ''a\<newline>'')]) fresh)) =
          started demo @ ys" "\<forall>c\<in>set ys. after_start c"
    by (auto simp: calm_def)
  moreover have "length (calls (snd (run_container_and_log demo (calm [Chunk (encode_ascii ''a\<newline>'')]) fresh))) = 5"
    by (simp add: run_defs text_defs demo_defs)
  ultimately show ?thesis by (auto simp: started_def list_all_iff)
qed

text \<open>
  Claim C8. \<^verbatim>\<open>run_container\<close> makes one \<^verbatim>\<open>containers.run\<close> call: the given image,
  \<^verbatim>\<open>detach\<close>, \<^verbatim>\<open>stdout\<close> and \<^verbatim>\<open>stderr\<close> all true, and the three-element command
  \<^verbatim>\<open>bash\<close>, \<^verbatim>\<open>-c\<close>, \<^verbatim>\<open>python -u -c '...'\<close>. The third element is the fourteen
  code points of \<^verbatim>\<open>python -u -c '\<close>, then the command string unchanged, whatever it
  contains, then one apostrophe. Without a fault the call returns the container.
\<close>

theorem run_container_command:
  "calls (snd (run_container f self w)) =
     calls w @
     [ContainersRun (docker_image self)
        [ascii ''bash'', ascii ''-c'',
         ascii ''python -u -c '' @ apostrophe @ bash_command self @ apostrophe]
        True True True] \<and>
   length (command_of (last (calls (snd (run_container f self w))))) = 3 \<and>
   butlast (drop 14 (command_of (last (calls (snd (run_container f self w)))) ! 2)) = bash_command self \<and>
   take 14 (command_of (last (calls (snd (run_container f self w)))) ! 2) = ascii ''python -u -c '' @ [0x27] \<and>
   last (command_of (last (calls (snd (run_container f self w)))) ! 2) = 0x27 \<and>
   fst (run_container None self w) = Inr Container"
  by (cases f) (simp_all add: run_container_def record_call_def ascii_def apostrophe_def)

text \<open>
  Claim C9. In a run that has forwarded the chunks \<open>cs\<close>, a next chunk that is not valid
  UTF-8 ends the run with an uncaught \<^verbatim>\<open>UnicodeDecodeError\<close> and status 1: after the
  set-up calls and the append calls for \<open>cs\<close> no call is made, and
  \<^verbatim>\<open>container.stop()\<close> is not among the calls of the run. And in any run, whatever
  its faults, in which every chunk of the stream is valid UTF-8, the run does not end
  with \<^verbatim>\<open>UnicodeDecodeError\<close>.
\<close>

theorem undecodable_chunk_aborts:
  "(calls w = [] \<and> group_fault en = None \<and> stream_fault en = None \<and> launch_fault en = None \<and>
    feed en = map Chunk cs @ Chunk c # rest \<and> map utf8_decode cs = map Some ts \<and>
    (\<forall>k<length cs. put_fault en k = None) \<and> utf8_decode c = None \<longrightarrow>
      fst (run_container_and_log self en w) = Inl UnicodeDecodeError \<and>
      exit_status (fst (run_container_and_log self en w)) = 1 \<and>
      (\<exists>evss. calls (snd (run_container_and_log self en w)) =
         started self @
         map (PutLogEvents (aws_cloudwatch_group self) (aws_cloudwatch_stream self)) evss \<and>
         map (map message) evss = map splitlines ts) \<and>
      ContainerStop \<notin> set (calls (snd (run_container_and_log self en w)))) \<and>
   ((\<forall>b. Chunk b \<in> set (feed en) \<longrightarrow> utf8_decode b \<noteq> None) \<longrightarrow>
      fst (run_container_and_log self en w) \<noteq> Inl UnicodeDecodeError)"
proof (intro conjI impI)
  let ?g = "aws_cloudwatch_group self" and ?s = "aws_cloudwatch_stream self"
  let ?run = "run_container_and_log self en w"
  assume h: "calls w = [] \<and> group_fault en = None \<and> stream_fault en = None \<and> launch_fault en = None \<and>
    feed en = map Chunk cs @ Chunk c # rest \<and> map utf8_decode cs = map Some ts \<and>
    (\<forall>k<length cs. put_fault en k = None) \<and> utf8_decode c = None"
  then have h1: "calls w = []" and h2: "group_fault en = None" and h3: "stream_fault en = None"
    and h4: "launch_fault en = None" and h5: "feed en = map Chunk cs @ Chunk c # rest"
    and h6: "map utf8_decode cs = map Some ts" and h7: "\<forall>k<length cs. put_fault en k = None"
    and h8: "utf8_decode c = None" by simp_all
  from run_undecodable [OF h1 h2 h3 h4 h5 h6 h7 h8, of self] obtain evss w' where
    c: "calls w' = started self @ map (PutLogEvents ?g ?s) evss"
    and m: "map (map message) evss = map splitlines ts"
    and r: "?run = (Inl UnicodeDecodeError, w')" by blast
  show "fst ?run = Inl UnicodeDecodeError" using r by simp
  show "exit_status (fst ?run) = 1" using r by simp
  show "\<exists>evss. calls (snd ?run) = started self @ map (PutLogEvents ?g ?s) evss \<and>
         map (map message) evss = map splitlines ts" using r c m by auto
  show "ContainerStop \<notin> set (calls (snd ?run))" using r c by (auto simp: started_def)
next
  assume "\<forall>b. Chunk b \<in> set (feed en) \<longrightarrow> utf8_decode b \<noteq> None"
  then show "fst (run_container_and_log self en w) \<noteq> Inl UnicodeDecodeError"
    by (rule run_no_decode_error)
qed

text \<open>
  The line \<^verbatim>\<open>b\<close>, U+00E9, line feed: cut inside the two bytes of U+00E9 it ends the
  run; delivered in one chunk it does not.
\<close>

theorem undecodable_chunk_aborts_witness:
  "fst (run_container_and_log demo
          (calm [Chunk (encode_ascii ''a\<newline>''), Chunk [0x62, 0xC3], Chunk [0xA9, 0x0A]]) fresh)
     = Inl UnicodeDecodeError \<and>
   ContainerStop \<notin> set (calls (snd (run_container_and_log demo
          (calm [Chunk (encode_ascii ''a\<newline>''), Chunk [0x62, 0xC3], Chunk [0xA9, 0x0A]]) fresh))) \<and>
   fst (run_container_and_log demo (calm [Chunk [0x62, 0xC3, 0xA9, 0x0A]]) fresh)
     \<noteq> Inl UnicodeDecodeError"
proof -
  let ?e1 = "calm [Chunk (encode_ascii ''a\<newline>''), Chunk [0x62, 0xC3], Chunk [0xA9, 0x0A]]"
  let ?e2 = "calm [Chunk [0x62, 0xC3, 0xA9, 0x0A]]"
  have a: "calls fresh = [] \<and> group_fault ?e1 = None \<and> stream_fault ?e1 = None \<and>
    launch_fault ?e1 = None \<and>
    feed ?e1 = map Chunk [encode_ascii ''a\<newline>''] @ Chunk [0x62, 0xC3] # [Chunk [0xA9, 0x0A]] \<and>
    map utf8_decode [encode_ascii ''a\<newline>''] = map Some [ascii ''a\<newline>''] \<and>
    (\<forall>k<length [encode_ascii ''a\<newline>'']. put_fault ?e1 k = None) \<and> utf8_decode [0x62, 0xC3] = None"
    by (simp add: demo_defs text_defs)
  have b: "\<forall>b. Chunk b \<in> set (feed ?e2) \<longrightarrow> utf8_decode b \<noteq> None"
    by (simp add: demo_defs text_defs)
  from undecodable_chunk_aborts [where w = fresh and en = ?e1 and cs = "[encode_ascii ''a\<newline>'']"
      and c = "[0x62, 0xC3]" and rest = "[Chunk [0xA9, 0x0A]]" and ts = "[ascii ''a\<newline>'']"
      and self = demo] a
  have 1: "fst (run_container_and_log demo ?e1 fresh) = Inl UnicodeDecodeError \<and>
           ContainerStop \<notin> set (calls (snd (run_container_and_log demo ?e1 fresh)))"
    by blast
  from undecodable_chunk_aborts [where w = fresh and en = ?e2 and self = demo] b
  have 2: "fst (run_container_and_log demo ?e2 fresh) \<noteq> Inl UnicodeDecodeError"
    by blast
  from 1 2 show ?thesis by simp
qed

text \<open>
  Claim C10. The append call made for a chunk that decodes to the text \<open>t\<close> carries
  \<open>splitlines t\<close>. No event text contains a line boundary, the event texts together are
  \<open>t\<close> without its line boundaries, and \<open>t\<close> is cut at every universal line boundary:
  when \<open>t\<close> is \<open>u\<close>, a boundary \<open>b\<close> and \<open>v\<close>, with no boundary in \<open>u\<close>, the first event
  is \<open>u\<close> and the others are the events of \<open>v\<close>; a carriage return directly followed by
  a line feed is one boundary.
\<close>

theorem splitting_universal:
  assumes "utf8_decode c = Some t"
  shows "appends (snd (log_loop self en [Chunk c] w)) = appends w @ [splitlines t] \<and>
         (\<forall>l\<in>set (splitlines t). \<forall>x\<in>set l. \<not> is_linebreak x) \<and>
         concat (splitlines t) = filter (\<lambda>x. \<not> is_linebreak x) t \<and>
         (\<forall>u b v. t = u @ b # v \<and> (\<forall>x\<in>set u. \<not> is_linebreak x) \<and> is_linebreak b \<and>
                  \<not> (b = 0x0D \<and> v \<noteq> [] \<and> hd v = 0x0A) \<longrightarrow>
                  splitlines t = u # splitlines v) \<and>
         (\<forall>u v. t = u @ 0x0D # 0x0A # v \<and> (\<forall>x\<in>set u. \<not> is_linebreak x) \<longrightarrow>
                  splitlines t = u # splitlines v)"
proof (intro conjI)
  let ?g = "aws_cloudwatch_group self" and ?s = "aws_cloudwatch_stream self"
  show "appends (snd (log_loop self en [Chunk c] w)) = appends w @ [splitlines t]"
  proof (cases "put_fault en (puts w)")
    case None
    from send_ok [OF None, of ?g ?s "splitlines t"] obtain evs w1 where
      "send_logs_to_cloudwatch en ?g ?s (splitlines t) w = (Inr (), w1)"
      "calls w1 = calls w @ [PutLogEvents ?g ?s evs]" "map message evs = splitlines t" by blast
    then show ?thesis using assms by (simp add: appends_def)
  next
    case (Some x)
    from send_fail [OF Some, of ?g ?s "splitlines t"] obtain evs w1 where
      "send_logs_to_cloudwatch en ?g ?s (splitlines t) w =
                 (Inl (if x = NoCredentials then SystemExit 1 else raised x), w1)"
      "calls w1 = calls w @ PutLogEvents ?g ?s evs #
             (if x = NoCredentials then [Print (ascii ''AWS credentials are invalid.'')] else [])"
      "map message evs = splitlines t" by blast
    then show ?thesis using assms by (simp add: appends_def)
  qed
  show "\<forall>l\<in>set (splitlines t). \<forall>x\<in>set l. \<not> is_linebreak x"
    using splitlines_no_break by blast
  show "concat (splitlines t) = filter (\<lambda>x. \<not> is_linebreak x) t"
    by (rule concat_splitlines)
  show "\<forall>u b v. t = u @ b # v \<and> (\<forall>x\<in>set u. \<not> is_linebreak x) \<and> is_linebreak b \<and>
                  \<not> (b = 0x0D \<and> v \<noteq> [] \<and> hd v = 0x0A) \<longrightarrow>
                  splitlines t = u # splitlines v"
    using splitlines_at_break by blast
  show "\<forall>u v. t = u @ 0x0D # 0x0A # v \<and> (\<forall>x\<in>set u. \<not> is_linebreak x) \<longrightarrow>
                  splitlines t = u # splitlines v"
    using splitlines_at_crlf by blast
qed

text \<open>
  One chunk with a carriage return, a form feed, U+2028, a carriage return with line feed
  and a line feed: five events. A vertical tab cuts a text in two, and so does a carriage
  return with its line feed.
\<close>

theorem splitting_universal_witness:
  "appends (snd (log_loop demo (calm [])
      [Chunk [0x61, 0x0D, 0x62, 0x0C, 0x63, 0xE2, 0x80, 0xA8, 0x64, 0x0D, 0x0A, 0x65, 0x0A]] fresh)) =
     [[ascii ''a'', ascii ''b'', ascii ''c'', ascii ''d'', ascii ''e'']] \<and>
   splitlines [0x61, 0x0B, 0x62] = [0x61] # splitlines [0x62] \<and>
   splitlines [0x61, 0x0D, 0x0A, 0x62] = [0x61] # splitlines [0x62]"
proof -
  have d: "utf8_decode [0x61, 0x0D, 0x62, 0x0C, 0x63, 0xE2, 0x80, 0xA8, 0x64, 0x0D, 0x0A, 0x65, 0x0A] =
      Some [0x61, 0x0D, 0x62, 0x0C, 0x63, 0x2028, 0x64, 0x0D, 0x0A, 0x65, 0x0A]"
    by (simp add: text_defs)
  have d2: "utf8_decode [0x61, 0x0B, 0x62] = Some [0x61, 0x0B, 0x62]" by (simp add: text_defs)
  have d3: "utf8_decode [0x61, 0x0D, 0x0A, 0x62] = Some [0x61, 0x0D, 0x0A, 0x62]"
    by (simp add: text_defs)
  have h2: "[0x61, 0x0B, 0x62] = [0x61] @ 0x0B # [0x62] \<and> (\<forall>x\<in>set [0x61]. \<not> is_linebreak x) \<and>
      is_linebreak 0x0B \<and> \<not> (0x0B = (0x0D::nat) \<and> [0x62] \<noteq> [] \<and> hd [0x62] = (0x0A::nat))"
    by (simp add: is_linebreak_def)
  have h3: "[0x61, 0x0D, 0x0A, 0x62] = [0x61] @ 0x0D # 0x0A # [0x62] \<and>
      (\<forall>x\<in>set [0x61]. \<not> is_linebreak x)"
    by (simp add: is_linebreak_def)
  from splitting_universal [OF d, where self = demo and en = "calm []" and w = fresh]
  have 1: "appends (snd (log_loop demo (calm [])
      [Chunk [0x61, 0x0D, 0x62, 0x0C, 0x63, 0xE2, 0x80, 0xA8, 0x64, 0x0D, 0x0A, 0x65, 0x0A]] fresh)) =
     [[ascii ''a'', ascii ''b'', ascii ''c'', ascii ''d'', ascii ''e'']]"
    by (simp add: text_defs appends_def fresh_def)
  from splitting_universal [OF d2, where self = demo and en = "calm []" and w = fresh] h2
  have 2: "splitlines [0x61, 0x0B, 0x62] = [0x61] # splitlines [0x62]" by blast
  from splitting_universal [OF d3, where self = demo and en = "calm []" and w = fresh] h3
  have 3: "splitlines [0x61, 0x0D, 0x0A, 0x62] = [0x61] # splitlines [0x62]" by blast
  from 1 2 3 show ?thesis by simp
qed

end
